theory Spec2Isabelle
  imports Main
begin

section \<open>JavaScript string primitives used by the selector resolver\<close>

text \<open>
  A JavaScript string is a finite sequence of code units; it is modelled as a
  \<open>string\<close> (a list of characters). Indices and lengths handed to the string
  methods are JavaScript numbers; they are modelled as \<open>int\<close>, and each method clamps
  them the way ECMAScript prescribes. A search that fails returns \<open>-1\<close>.
\<close>

text \<open>\<open>s.substr(start, length)\<close>: a negative start counts from the end, the length is
  cut to what is left of the string.\<close>

definition js_substr :: "string \<Rightarrow> int \<Rightarrow> int \<Rightarrow> string" where
  "js_substr s start len =
     (let size = int (length s);
          st = (if start < 0 then max (size + start) 0 else min start size);
          n = min (max len 0) (size - st)
      in take (nat n) (drop (nat st) s))"

text \<open>Position of the first occurrence of a code unit in a list, if any.\<close>

primrec first_index :: "char \<Rightarrow> string \<Rightarrow> nat option" where
  "first_index c [] = None"
| "first_index c (x # xs) =
     (if x = c then Some 0 else map_option Suc (first_index c xs))"

text \<open>Position of the last occurrence of a code unit in a list, if any.\<close>

primrec last_index :: "char \<Rightarrow> string \<Rightarrow> nat option" where
  "last_index c [] = None"
| "last_index c (x # xs) =
     (case last_index c xs of
        Some i \<Rightarrow> Some (Suc i)
      | None \<Rightarrow> (if x = c then Some 0 else None))"

text \<open>\<open>s.lastIndexOf(c)\<close> for a one-unit search string \<open>c\<close>, no start position given.\<close>

definition js_lastIndexOf :: "string \<Rightarrow> char \<Rightarrow> int" where
  "js_lastIndexOf s c = (case last_index c s of None \<Rightarrow> - 1 | Some i \<Rightarrow> int i)"

text \<open>\<open>s.indexOf(c, fromIndex)\<close> for a one-unit search string \<open>c\<close>: the start position
  is clamped into \<open>[0, s.length]\<close>.\<close>

definition js_indexOf :: "string \<Rightarrow> char \<Rightarrow> int \<Rightarrow> int" where
  "js_indexOf s c fromIndex =
     (let k = nat (min (max fromIndex 0) (int (length s)))
      in case first_index c (drop k s) of None \<Rightarrow> - 1 | Some i \<Rightarrow> int (k + i))"

text \<open>\<open>s.substring(a, b)\<close>: both ends are clamped into \<open>[0, s.length]\<close> and swapped
  when they come in the wrong order.\<close>

definition js_substring :: "string \<Rightarrow> int \<Rightarrow> int \<Rightarrow> string" where
  "js_substring s a b =
     (let size = int (length s);
          a' = min (max a 0) size;
          b' = min (max b 0) size;
          from = nat (min a' b');
          to = nat (max a' b')
      in take (to - from) (drop from s))"

section \<open>The position context delivered by the markup tokenizer\<close>

text \<open>
  \<open>HTMLUtils.getTagInfo\<close> is an external collaborator. Its result is the input of the
  resolver: the kind of token under the position, the offset of the position inside
  that token, the tag name, and the name and value of the attribute. The four token
  kinds the resolver tests for are distinct constants of \<open>HTMLUtils\<close>; every other
  kind is \<open>OTHER_TOKEN\<close>.
\<close>

datatype token_type = TAG_NAME | CLOSING_TAG | ATTR_NAME | ATTR_VALUE | OTHER_TOKEN

record tag_position =
  tokenType :: token_type
  offset :: int

record tag_attr =
  attr_name :: string
  attr_value :: string

record tag_info =
  tagName :: string
  attr :: tag_attr
  position :: tag_position

section \<open>The selector resolver\<close>

text \<open>
  \<open>_getSelectorName(editor, pos)\<close>; the argument is
  \<open>tagInfo = HTMLUtils.getTagInfo(editor, pos)\<close>, the first thing the function computes.
\<close>

definition getSelectorName :: "tag_info \<Rightarrow> string" where
  "getSelectorName tagInfo =
     (if tokenType (position tagInfo) = TAG_NAME \<or> tokenType (position tagInfo) = CLOSING_TAG
      then tagName tagInfo
      else if tokenType (position tagInfo) = ATTR_NAME \<or> tokenType (position tagInfo) = ATTR_VALUE
      then
        (if attr_name (attr tagInfo) = ''class'' then
           (let attributeValue = attr_value (attr tagInfo);
                startIndex = js_lastIndexOf
                               (js_substr attributeValue 0 (offset (position tagInfo))) CHR '' '';
                endIndex = js_indexOf attributeValue CHR '' '' (offset (position tagInfo));
                selectorName = ''.'' @
                  js_substring attributeValue
                    (if startIndex = - 1 then 0 else startIndex + 1)
                    (if endIndex = - 1 then int (length attributeValue) else endIndex)
            in if selectorName = ''.'' then '''' else selectorName)
         else if attr_name (attr tagInfo) = ''id'' then ''#'' @ attr_value (attr tagInfo)
         else '''')
      else '''')"

section \<open>Data of the quick-edit coordinator\<close>

text \<open>
  Object references are modelled by indices: a \<open>wid\<close> is the identity of a
  \<open>MultiRangeInlineEditor\<close> object (its index in \<open>editors\<close>, which holds the
  widgets this module builds and those that other providers of the host build from
  the same class), a \<open>sid\<close> is the identity
  of one activation of \<open>htmlToCSSProvider\<close>, that is of the closure that owns the
  variables \<open>selectorName\<close>, \<open>result\<close>, \<open>cssInlineEditor\<close>, \<open>cssFileInfos\<close>,
  \<open>$newRuleButton\<close>, \<open>$dropdown\<close> and \<open>dropdownEventHandler\<close> (its index in
  \<open>sessions\<close>). A document is identified by its path.
\<close>

type_synonym wid = nat
type_synonym sid = nat
type_synonym doc = string

record pos =
  line :: int
  ch :: int

record selection =
  sel_start :: pos
  sel_end :: pos

text \<open>What the provider reads from \<open>hostEditor\<close>:
  \<open>getLanguageForSelection().getId()\<close>, \<open>getSelection()\<close> and \<open>document\<close>.\<close>

record host_editor =
  languageId :: string
  getSelection :: selection
  document :: doc

text \<open>An entry of the list delivered by \<open>FileIndexManager.getFileInfoList\<close>.\<close>

record file_info =
  fullPath :: string
  displayName :: string

text \<open>A range shown by the multi-range widget: label, document, first and last line.\<close>

record text_range =
  rangeLabel :: string
  rangeDoc :: doc
  startLine :: int
  endLine :: int

text \<open>
  Modelled from the spec: \<open>MultiRangeInlineEditor\<close> is not part of the source at hand.
  The widget holds the ranges it displays, the one that is selected (if any) and the
  caret of its own editor.
\<close>

record inline_editor =
  ranges :: "text_range list"
  selectedRange :: "nat option"
  cursorPos :: "pos option"

text \<open>The value of \<open>CSSUtils.addRuleToDocument\<close>: \<open>range.from\<close>, \<open>range.to\<close> and
  \<open>pos\<close>.\<close>

record new_rule_info =
  range_from :: pos
  range_to :: pos
  rule_pos :: pos

text \<open>A jQuery deferred: pending, resolved with a value, or rejected.\<close>

datatype 'a deferred = Pending | Resolved 'a | Rejected

definition resolve :: "'a \<Rightarrow> 'a deferred \<Rightarrow> 'a deferred" where
  "resolve v d = (case d of Pending \<Rightarrow> Resolved v | _ \<Rightarrow> d)"

definition reject :: "'a deferred \<Rightarrow> 'a deferred" where
  "reject d = (case d of Pending \<Rightarrow> Rejected | _ \<Rightarrow> d)"

text \<open>The new-rule button, by the two CSS classes the code toggles: \<open>disabled\<close> and
  \<open>btn-dropdown\<close>.\<close>

record button =
  disabled :: bool
  btn_dropdown :: bool

text \<open>
  The variables of one activation of \<open>htmlToCSSProvider\<close>. The value of \<open>result\<close> is a
  widget or \<open>null\<close>; \<open>$dropdown\<close> is the rendered list (name and path of each item) or
  \<open>null\<close>; \<open>dropdownEventHandler\<close> is an object or \<open>null\<close>.
\<close>

record session =
  selectorName :: string
  result :: "wid option deferred"
  cssInlineEditor :: "wid option"
  cssFileInfos :: "file_info list"
  newRuleButton :: "button option"
  dropdown :: "(string \<times> string) list option"
  dropdownEventHandler :: bool

text \<open>
  The callbacks the code attaches to promises, with the variables they capture:
  the \<open>done\<close> and \<open>fail\<close> callbacks of \<open>findMatchingRules\<close>, the \<open>done\<close> callback of
  \<open>getFileInfoList\<close> (which captures \<open>rules\<close>, of which it reads the length), and the
  \<open>done\<close> callback of \<open>getDocumentForPath\<close> in \<open>_addRule\<close>.
\<close>

datatype callback =
    RulesDone sid
  | RulesFail sid
  | FileInfosDone sid nat
  | AddRuleDone string "wid option"

datatype request =
    FindMatchingRules string doc
  | GetFileInfoList string
  | GetDocumentForPath string

text \<open>An asynchronous call that has not completed, with the callbacks attached to
  its promise.\<close>

record pending_call =
  req :: request
  doneCallbacks :: "callback list"
  failCallbacks :: "callback list"

datatype outcome =
    RulesFound "text_range list"
  | FileInfosFound "file_info list"
  | DocumentOpened doc
  | Failed

text \<open>Synchronous calls into collaborators that change something outside this
  module, in the order they are made.\<close>

datatype ext_call =
    AddRuleToDocument doc string bool int
  | MenusCloseAll
  | FocusEditor
  | ConsoleLog string

text \<open>
  The state of the module and of the objects it creates: the registry
  \<open>_newRuleHandlers\<close> of \<open>{inlineEditor, handler}\<close> entries (the handler is the
  \<open>_handleNewRuleClick\<close> of a session), the enablement of \<open>_newRuleCmd\<close>, the sessions,
  the multi-range widgets that exist (those of this module and those of other
  providers), the pending asynchronous calls, the sessions whose \<open>_closeDropdown\<close> is
  registered as a click listener on \<open>html\<close>, the widget that has the focus (if one
  has), and the calls made so far.
\<close>

record world =
  newRuleHandlers :: "(wid \<times> sid) list"
  newRuleCmdEnabled :: bool
  sessions :: "session list"
  editors :: "inline_editor list"
  pending :: "pending_call list"
  htmlClick :: "sid list"
  focused :: "wid option"
  effects :: "ext_call list"

text \<open>The collaborators whose values the code uses: the markup tokenizer, rule
  consolidation, rule insertion and the two indentation preferences.\<close>

record externals =
  getTagInfo :: "host_editor \<Rightarrow> pos \<Rightarrow> tag_info"
  consolidateRules :: "text_range list \<Rightarrow> text_range list"
  addRuleToDocument :: "doc \<Rightarrow> string \<Rightarrow> bool \<Rightarrow> int \<Rightarrow> new_rule_info"
  getUseTabChar :: bool
  getSpaceUnits :: int

text \<open>The state when the module has been loaded: the command is registered and
  disabled, the registry is empty.\<close>

definition init_world :: world where
  "init_world =
     \<lparr>newRuleHandlers = [], newRuleCmdEnabled = False, sessions = [], editors = [],
      pending = [], htmlClick = [], focused = None, effects = []\<rparr>"

definition upd_session :: "sid \<Rightarrow> (session \<Rightarrow> session) \<Rightarrow> world \<Rightarrow> world" where
  "upd_session s f w = w\<lparr>sessions := (sessions w)[s := f (sessions w ! s)]\<rparr>"

section \<open>The widget\<close>

text \<open>
  Modelled from the spec: \<open>MultiRangeInlineEditor.addAndSelectRange\<close> is not part of
  the source at hand. It adds the range to the multi-range display and selects it.
\<close>

definition addAndSelectRange ::
  "string \<Rightarrow> doc \<Rightarrow> int \<Rightarrow> int \<Rightarrow> inline_editor \<Rightarrow> inline_editor" where
  "addAndSelectRange label d fromLine toLine ed =
     ed\<lparr>ranges := ranges ed @
            [\<lparr>rangeLabel = label, rangeDoc = d, startLine = fromLine, endLine = toLine\<rparr>],
        selectedRange := Some (length (ranges ed))\<rparr>"

text \<open>
  Modelled from the spec: \<open>setCursorPos\<close> of the widget's editor handle is not part of
  the source at hand. It moves the caret of the widget's own editor.
\<close>

definition setCursorPos :: "int \<Rightarrow> int \<Rightarrow> inline_editor \<Rightarrow> inline_editor" where
  "setCursorPos l c ed = ed\<lparr>cursorPos := Some \<lparr>line = l, ch = c\<rparr>\<rparr>"

text \<open>
  Modelled from the spec: \<open>hasFocus\<close> and \<open>getFocusedMultiRangeInlineEditor\<close> of
  \<open>MultiRangeInlineEditor\<close> are not part of the source at hand. Which widget has
  the focus is a field of the state, set by the environment. A widget reports focus
  when it is the one that has it; the focused widget is that one, or \<open>null\<close>.
\<close>

definition hasFocus :: "wid \<Rightarrow> world \<Rightarrow> bool" where
  "hasFocus ed w = (focused w = Some ed)"

definition getFocusedMultiRangeInlineEditor :: "world \<Rightarrow> wid option" where
  "getFocusedMultiRangeInlineEditor w = focused w"

section \<open>Command enablement and focus\<close>

text \<open>\<open>_updateCommands\<close> of session \<open>s\<close>.\<close>

definition updateCommands :: "sid \<Rightarrow> world \<Rightarrow> world" where
  "updateCommands s w =
     (case cssInlineEditor (sessions w ! s) of
        None \<Rightarrow> w
      | Some ed \<Rightarrow>
          (case newRuleButton (sessions w ! s) of
             None \<Rightarrow> w
           | Some b \<Rightarrow> w\<lparr>newRuleCmdEnabled := (hasFocus ed w \<and> \<not> disabled b)\<rparr>))"

text \<open>
  A \<open>focusin\<close> or \<open>focusout\<close> event on the content of a widget runs the
  \<open>_updateCommands\<close> that was attached to it when the widget was built; the registry
  entry pushed at the same time tells which session that is.
\<close>

definition focus_event :: "wid option \<Rightarrow> world \<Rightarrow> world" where
  "focus_event target w =
     (case target of
        None \<Rightarrow> w
      | Some ed \<Rightarrow>
          (case map_of (newRuleHandlers w) ed of
             None \<Rightarrow> w
           | Some s \<Rightarrow> updateCommands s w))"

text \<open>The focus moves: \<open>focusout\<close> on the widget that had it, \<open>focusin\<close> on the one that
  gets it.\<close>

definition set_focus :: "wid option \<Rightarrow> world \<Rightarrow> world" where
  "set_focus target w =
     focus_event target (focus_event (focused w) (w\<lparr>focused := target\<rparr>))"

section \<open>Rule creation\<close>

text \<open>
  \<open>_addRule\<close>: the call of \<open>DocumentManager.getDocumentForPath\<close> with one \<open>done\<close>
  callback and no \<open>fail\<close> callback.
\<close>

definition addRule :: "string \<Rightarrow> wid option \<Rightarrow> string \<Rightarrow> world \<Rightarrow> world" where
  "addRule selName inlineEditor path w =
     w\<lparr>pending := pending w @
          [\<lparr>req = GetDocumentForPath path,
            doneCallbacks = [AddRuleDone selName inlineEditor],
            failCallbacks = []\<rparr>]\<rparr>"

text \<open>
  The \<open>done\<close> callback of \<open>_addRule\<close>. When \<open>inlineEditor\<close> is undefined the second
  statement throws and the callback ends there.
\<close>

definition addRule_done ::
  "externals \<Rightarrow> string \<Rightarrow> wid option \<Rightarrow> doc \<Rightarrow> world \<Rightarrow> world" where
  "addRule_done ext selName inlineEditor styleDoc w =
     (let newRuleInfo = addRuleToDocument ext styleDoc selName
                          (getUseTabChar ext) (getSpaceUnits ext);
          w1 = w\<lparr>effects := effects w @
                  [AddRuleToDocument styleDoc selName (getUseTabChar ext) (getSpaceUnits ext)]\<rparr>
      in case inlineEditor of
           None \<Rightarrow> w1
         | Some ed \<Rightarrow>
             w1\<lparr>editors := (editors w1)
                  [ed := setCursorPos (line (rule_pos newRuleInfo)) (ch (rule_pos newRuleInfo))
                           (addAndSelectRange selName styleDoc
                              (line (range_from newRuleInfo)) (line (range_to newRuleInfo))
                              (editors w1 ! ed))]\<rparr>)"

section \<open>The stylesheet picker\<close>

text \<open>
  Modelled from the spec: the template \<open>stylesheets-menu.html\<close> rendered by
  \<open>_renderList\<close> is not part of the source at hand. The list view has one item per
  candidate, with its display name and its path.
\<close>

definition renderList :: "file_info list \<Rightarrow> (string \<times> string) list" where
  "renderList infos = map (\<lambda>fi. (displayName fi, fullPath fi)) infos"

text \<open>\<open>_cleanupDropdown\<close> of session \<open>s\<close>; \<open>EditorManager.focusEditor\<close> gives the focus
  to the host editor, so no widget has it afterwards.\<close>

definition cleanupDropdown :: "sid \<Rightarrow> world \<Rightarrow> world" where
  "cleanupDropdown s w =
     (let w1 = w\<lparr>htmlClick := filter (\<lambda>x. x \<noteq> s) (htmlClick w)\<rparr>;
          w2 = upd_session s (\<lambda>x. x\<lparr>dropdownEventHandler := False, dropdown := None\<rparr>) w1;
          w3 = w2\<lparr>effects := effects w2 @ [FocusEditor]\<rparr>
      in set_focus None w3)"

text \<open>\<open>_closeDropdown\<close> of session \<open>s\<close>: closing the event handler ultimately calls
  \<open>_cleanupDropdown\<close>.\<close>

definition closeDropdown :: "sid \<Rightarrow> world \<Rightarrow> world" where
  "closeDropdown s w =
     (if dropdownEventHandler (sessions w ! s) then cleanupDropdown s w else w)"

text \<open>\<open>_showDropdown\<close> of session \<open>s\<close>; the dropdown is appended to the body, outside
  every widget, and takes the focus.\<close>

definition showDropdown :: "sid \<Rightarrow> world \<Rightarrow> world" where
  "showDropdown s w =
     (let w1 = w\<lparr>effects := effects w @ [MenusCloseAll]\<rparr>;
          w2 = upd_session s
                 (\<lambda>x. x\<lparr>dropdown := Some (renderList (cssFileInfos (sessions w1 ! s)))\<rparr>) w1;
          w3 = w2\<lparr>htmlClick := htmlClick w2 @ [s]\<rparr>;
          w4 = upd_session s (\<lambda>x. x\<lparr>dropdownEventHandler := True\<rparr>) w3
      in set_focus None w4)"

text \<open>
  The link's \<open>data-path\<close> attribute is read with jQuery's \<open>data\<close>, which converts
  the text of the attribute before the code tests it: \<open>false\<close> becomes the boolean,
  \<open>null\<close> becomes null, a text that is the canonical writing of a number becomes
  that number, and any other text stays a string. The texts whose value is falsy are
  the empty text, \<open>false\<close>, \<open>null\<close>, \<open>0\<close> and \<open>NaN\<close>.
\<close>

definition data_falsy :: "string \<Rightarrow> bool" where
  "data_falsy t \<longleftrightarrow> t = [] \<or> t = ''false'' \<or> t = ''null'' \<or> t = ''0'' \<or> t = ''NaN''"

text \<open>\<open>_onSelect\<close> of session \<open>s\<close>; \<open>path\<close> is the text of the \<open>data-path\<close>
  attribute of the chosen link, or \<open>None\<close> when the link has none. A path that is
  not falsy is handed to \<open>_addRule\<close>.\<close>

definition onSelect :: "sid \<Rightarrow> string option \<Rightarrow> world \<Rightarrow> world" where
  "onSelect s path w =
     (case path of
        None \<Rightarrow> w
      | Some p \<Rightarrow>
          if \<not> data_falsy p then
            addRule (selectorName (sessions w ! s)) (cssInlineEditor (sessions w ! s)) p w
          else w)"

section \<open>The new-rule button and the command\<close>

text \<open>
  \<open>_handleNewRuleClick\<close> of session \<open>s\<close>. The argument tells whether an event was
  passed; the handler stops its propagation, so a click on the button reaches no
  listener on \<open>html\<close>.
\<close>

definition handleNewRuleClick :: "sid \<Rightarrow> bool \<Rightarrow> world \<Rightarrow> world" where
  "handleNewRuleClick s e w =
     (case newRuleButton (sessions w ! s) of
        None \<Rightarrow> w
      | Some b \<Rightarrow>
          if \<not> disabled b then
            (if length (cssFileInfos (sessions w ! s)) = 1 then
               addRule (selectorName (sessions w ! s)) (cssInlineEditor (sessions w ! s))
                 (fullPath (cssFileInfos (sessions w ! s) ! 0)) w
             else if dropdown (sessions w ! s) \<noteq> None then closeDropdown s w
             else showDropdown s w)
          else w)"

text \<open>\<open>_handleNewRule\<close>, the handler of the global command.\<close>

definition handleNewRule :: "world \<Rightarrow> world" where
  "handleNewRule w =
     (case getFocusedMultiRangeInlineEditor w of
        None \<Rightarrow> w
      | Some inlineEditor \<Rightarrow>
          (case find (\<lambda>entry. fst entry = inlineEditor) (newRuleHandlers w) of
             None \<Rightarrow> w
           | Some handlerInfo \<Rightarrow> handleNewRuleClick (snd handlerInfo) False w))"

section \<open>The provider\<close>

text \<open>
  \<open>htmlToCSSProvider\<close>. The value is \<open>null\<close> (\<open>None\<close>) or the promise of \<open>result\<close>,
  identified with the new session that owns it.
\<close>

definition htmlToCSSProvider ::
  "externals \<Rightarrow> host_editor \<Rightarrow> pos \<Rightarrow> world \<Rightarrow> sid option \<times> world" where
  "htmlToCSSProvider ext hostEditor p w =
     (if languageId hostEditor \<noteq> ''html'' then (None, w)
      else
        let sel = getSelection hostEditor in
        if line (sel_start sel) \<noteq> line (sel_end sel) then (None, w)
        else
          let selName = getSelectorName (getTagInfo ext hostEditor (sel_start sel)) in
          if selName = [] then (None, w)
          else
            let s = length (sessions w) in
            (Some s,
             w\<lparr>sessions := sessions w @
                  [\<lparr>selectorName = selName, result = Pending, cssInlineEditor = None,
                    cssFileInfos = [], newRuleButton = None, dropdown = None,
                    dropdownEventHandler = False\<rparr>],
               pending := pending w @
                  [\<lparr>req = FindMatchingRules selName (document hostEditor),
                    doneCallbacks = [RulesDone s],
                    failCallbacks = [RulesFail s]\<rparr>]\<rparr>))"

text \<open>
  The \<open>done\<close> callback of \<open>findMatchingRules\<close> in session \<open>s\<close>: the widget is built from
  the consolidated rules, the button is created with the class \<open>disabled\<close>, the
  registry entry is pushed, \<open>result\<close> is resolved with the widget, and the list of
  stylesheets is requested.
\<close>

definition findMatchingRules_done ::
  "externals \<Rightarrow> sid \<Rightarrow> text_range list \<Rightarrow> world \<Rightarrow> world" where
  "findMatchingRules_done ext s rules w =
     (let ed = length (editors w);
          w1 = w\<lparr>editors := editors w @
                  [\<lparr>ranges = consolidateRules ext rules, selectedRange = None,
                    cursorPos = None\<rparr>]\<rparr>;
          w2 = upd_session s
                 (\<lambda>x. x\<lparr>cssInlineEditor := Some ed,
                         newRuleButton := Some \<lparr>disabled = True, btn_dropdown = False\<rparr>\<rparr>) w1;
          w3 = w2\<lparr>newRuleHandlers := newRuleHandlers w2 @ [(ed, s)]\<rparr>;
          w4 = upd_session s (\<lambda>x. x\<lparr>result := resolve (Some ed) (result x)\<rparr>) w3
      in w4\<lparr>pending := pending w4 @
              [\<lparr>req = GetFileInfoList ''css'',
                doneCallbacks = [FileInfosDone s (length rules)],
                failCallbacks = []\<rparr>]\<rparr>)"

text \<open>The \<open>fail\<close> callback of \<open>findMatchingRules\<close> in session \<open>s\<close>.\<close>

definition findMatchingRules_fail :: "sid \<Rightarrow> world \<Rightarrow> world" where
  "findMatchingRules_fail s w =
     upd_session s (\<lambda>x. x\<lparr>result := reject (result x)\<rparr>)
       (w\<lparr>effects := effects w @ [ConsoleLog ''Error in findMatchingRules()'']\<rparr>)"

text \<open>
  The \<open>done\<close> callback of \<open>getFileInfoList\<close> in session \<open>s\<close>; \<open>nrules\<close> is
  \<open>rules.length\<close>. Focusing the button gives the focus to the widget whose header
  holds it.
\<close>

definition getFileInfoList_done :: "sid \<Rightarrow> nat \<Rightarrow> file_info list \<Rightarrow> world \<Rightarrow> world" where
  "getFileInfoList_done s nrules fileInfos w =
     (let w1 = upd_session s (\<lambda>x. x\<lparr>cssFileInfos := fileInfos\<rparr>) w;
          w2 = (if length fileInfos > 0 then
                  (let w' = upd_session s
                              (\<lambda>x. x\<lparr>newRuleButton :=
                                        map_option (\<lambda>b. b\<lparr>disabled := False\<rparr>) (newRuleButton x)\<rparr>) w1
                   in if nrules = 0 then set_focus (cssInlineEditor (sessions w' ! s)) w' else w')
                else w1);
          w3 = (if length fileInfos > 1 then
                  upd_session s
                    (\<lambda>x. x\<lparr>newRuleButton :=
                              map_option (\<lambda>b. b\<lparr>btn_dropdown := True\<rparr>) (newRuleButton x)\<rparr>) w2
                else w2)
      in updateCommands s w3)"

section \<open>The environment\<close>

text \<open>A callback is run with the outcome of the call it was attached to.\<close>

fun run_callback :: "externals \<Rightarrow> outcome \<Rightarrow> callback \<Rightarrow> world \<Rightarrow> world" where
  "run_callback ext (RulesFound rules) (RulesDone s) w = findMatchingRules_done ext s rules w"
| "run_callback ext Failed (RulesFail s) w = findMatchingRules_fail s w"
| "run_callback ext (FileInfosFound fileInfos) (FileInfosDone s n) w =
     getFileInfoList_done s n fileInfos w"
| "run_callback ext (DocumentOpened d) (AddRuleDone selName ed) w =
     addRule_done ext selName ed d w"
| "run_callback ext _ _ w = w"

text \<open>Which outcomes a call can have.\<close>

fun answers :: "request \<Rightarrow> outcome \<Rightarrow> bool" where
  "answers _ Failed = True"
| "answers (FindMatchingRules _ _) (RulesFound _) = True"
| "answers (GetFileInfoList _) (FileInfosFound _) = True"
| "answers (GetDocumentForPath _) (DocumentOpened _) = True"
| "answers _ _ = False"

text \<open>
  The \<open>i\<close>-th pending call completes: its promise is settled once, the \<open>done\<close>
  callbacks run on success and the \<open>fail\<close> callbacks on failure, in the order they were
  attached.
\<close>

definition settle :: "externals \<Rightarrow> nat \<Rightarrow> outcome \<Rightarrow> world \<Rightarrow> world" where
  "settle ext i out w =
     (if i < length (pending w) \<and> answers (req (pending w ! i)) out then
        fold (run_callback ext out)
          (case out of Failed \<Rightarrow> failCallbacks (pending w ! i)
                     | _ \<Rightarrow> doneCallbacks (pending w ! i))
          (w\<lparr>pending := take i (pending w) @ drop (Suc i) (pending w)\<rparr>)
      else w)"

text \<open>
  What can happen to the module: the host asks for an inline editor, a pending call
  completes, the button of a session is clicked, the command is executed, a click
  lands outside the button, an item of the open picker of a session is chosen
  (the picker calls \<open>_onSelect\<close> and closes), the picker is dismissed from the
  keyboard, the focus moves to a multi-range widget or away from all of them, or
  another provider of the host builds a multi-range widget of its own, which this
  module never registers.
\<close>

datatype input =
    Provide host_editor pos
  | Settle nat outcome
  | ClickButton sid
  | NewRuleCommand
  | ClickOutside
  | SelectItem sid "string option"
  | DismissDropdown sid
  | FocusChange "wid option"
  | OtherWidget inline_editor

fun step :: "externals \<Rightarrow> input \<Rightarrow> world \<Rightarrow> world" where
  "step ext (Provide hostEditor p) w = snd (htmlToCSSProvider ext hostEditor p w)"
| "step ext (Settle i out) w = settle ext i out w"
| "step ext (ClickButton s) w =
     (if s < length (sessions w) \<and> newRuleButton (sessions w ! s) \<noteq> None
      then handleNewRuleClick s True w else w)"
| "step ext NewRuleCommand w = handleNewRule w"
| "step ext ClickOutside w = fold closeDropdown (htmlClick w) w"
| "step ext (SelectItem s path) w =
     (if s < length (sessions w) \<and> dropdownEventHandler (sessions w ! s)
      then closeDropdown s (onSelect s path w) else w)"
| "step ext (DismissDropdown s) w =
     (if s < length (sessions w) then closeDropdown s w else w)"
| "step ext (FocusChange target) w =
     (case target of
        None \<Rightarrow> set_focus None w
      | Some ed \<Rightarrow> if ed < length (editors w) then set_focus (Some ed) w else w)"
| "step ext (OtherWidget ed) w = w\<lparr>editors := editors w @ [ed]\<rparr>"

text \<open>A run of the module from a state, one input after the other.\<close>

fun run :: "externals \<Rightarrow> input list \<Rightarrow> world \<Rightarrow> world" where
  "run ext [] w = w"
| "run ext (i # ins) w = run ext ins (step ext i w)"

section \<open>Example inputs\<close>

text \<open>The attribute \<open>class="error-dialog modal hide"\<close> with the position inside
  \<open>modal\<close>.\<close>

definition ex_class_modal :: tag_info where
  "ex_class_modal =
     \<lparr>tagName = ''div'',
      attr = \<lparr>attr_name = ''class'', attr_value = ''error-dialog modal hide''\<rparr>,
      position = \<lparr>tokenType = ATTR_VALUE, offset = 15\<rparr>\<rparr>"

text \<open>A class attribute whose first two names are separated by a tab and whose
  last two are separated by a space, with the position on that space.\<close>

definition ex_class_tab :: tag_info where
  "ex_class_tab =
     \<lparr>tagName = ''div'',
      attr = \<lparr>attr_name = ''class'', attr_value = [CHR ''a'', CHR 0x09, CHR ''b'', CHR '' '', CHR ''c'']\<rparr>,
      position = \<lparr>tokenType = ATTR_VALUE, offset = 3\<rparr>\<rparr>"

text \<open>The attribute \<open>id="main-panel"\<close> with the position inside the value.\<close>

definition ex_id_main :: tag_info where
  "ex_id_main =
     \<lparr>tagName = ''div'',
      attr = \<lparr>attr_name = ''id'', attr_value = ''main-panel''\<rparr>,
      position = \<lparr>tokenType = ATTR_VALUE, offset = 4\<rparr>\<rparr>"

text \<open>Collaborators for the examples: the tokenizer reports the position inside
  the value of \<open>id="main-panel"\<close>, consolidation keeps the rules as they are, and
  the inserted rule spans lines 10 to 12 with the caret at line 11, column 4.\<close>

definition ex_ext :: externals where
  "ex_ext =
     \<lparr>getTagInfo = (\<lambda>hostEditor p. ex_id_main),
      consolidateRules = (\<lambda>rules. rules),
      addRuleToDocument = (\<lambda>d selName useTabs units.
         \<lparr>range_from = \<lparr>line = 10, ch = 0\<rparr>, range_to = \<lparr>line = 12, ch = 1\<rparr>,
          rule_pos = \<lparr>line = 11, ch = 4\<rparr>\<rparr>),
      getUseTabChar = False,
      getSpaceUnits = 4\<rparr>"

definition ex_pos :: pos where
  "ex_pos = \<lparr>line = 3, ch = 9\<rparr>"

text \<open>An HTML editor with the caret on line 3.\<close>

definition ex_host :: host_editor where
  "ex_host =
     \<lparr>languageId = ''html'',
      getSelection = \<lparr>sel_start = \<lparr>line = 3, ch = 9\<rparr>, sel_end = \<lparr>line = 3, ch = 9\<rparr>\<rparr>,
      document = ''index.html''\<rparr>"

text \<open>The same editor with a selection from line 3 to line 4.\<close>

definition ex_host_two_lines :: host_editor where
  "ex_host_two_lines =
     \<lparr>languageId = ''html'',
      getSelection = \<lparr>sel_start = \<lparr>line = 3, ch = 9\<rparr>, sel_end = \<lparr>line = 4, ch = 2\<rparr>\<rparr>,
      document = ''index.html''\<rparr>"

definition ex_css1 :: file_info where
  "ex_css1 = \<lparr>fullPath = ''/a.css'', displayName = ''a.css''\<rparr>"

definition ex_css2 :: file_info where
  "ex_css2 = \<lparr>fullPath = ''/b.css'', displayName = ''b.css''\<rparr>"

text \<open>Runs of the module: the provider is asked for a widget and the rule lookup
  is pending; the lookup has answered with no rule and the stylesheet list is
  pending; the list has arrived with no, one or two stylesheets; the button has been
  clicked with one stylesheet; the button has been clicked with two.\<close>

definition ex_lookup :: "input list" where
  "ex_lookup = [Provide ex_host ex_pos]"

definition ex_built :: "input list" where
  "ex_built = ex_lookup @ [Settle 0 (RulesFound [])]"

definition ex_one_sheet :: "input list" where
  "ex_one_sheet = ex_built @ [Settle 0 (FileInfosFound [ex_css1])]"

definition ex_two_sheets :: "input list" where
  "ex_two_sheets = ex_built @ [Settle 0 (FileInfosFound [ex_css1, ex_css2])]"

definition ex_creating :: "input list" where
  "ex_creating = ex_one_sheet @ [ClickButton 0]"

definition ex_picker_open :: "input list" where
  "ex_picker_open = ex_two_sheets @ [ClickButton 0]"

definition ex_built_focused :: "input list" where
  "ex_built_focused = ex_built @ [FocusChange (Some 0)]"

text \<open>The widget of the session is built, another provider builds a widget of its
  own, and that one gets the focus.\<close>

definition ex_other_focused :: "input list" where
  "ex_other_focused =
     ex_built @ [OtherWidget \<lparr>ranges = [], selectedRange = None, cursorPos = None\<rparr>,
                 FocusChange (Some 1)]"

section \<open>Well-formed states\<close>

text \<open>
  The invariant of the states the module can reach. The session a callback belongs
  to; the sessions that still wait for the answer of a pending call; a session that
  has not seen the answer of its rule lookup; what holds of each pending call, of each
  session and of the registry.
\<close>

fun cb_session :: "callback \<Rightarrow> sid option" where
  "cb_session (RulesDone s) = Some s"
| "cb_session (RulesFail s) = Some s"
| "cb_session (FileInfosDone s n) = Some s"
| "cb_session (AddRuleDone selName ed) = None"

definition owners :: "pending_call list \<Rightarrow> sid list" where
  "owners ps = concat (map (\<lambda>p. List.map_filter cb_session (doneCallbacks p)) ps)"

definition fresh_session :: "session \<Rightarrow> bool" where
  "fresh_session x \<longleftrightarrow>
     result x = Pending \<and> cssInlineEditor x = None \<and> cssFileInfos x = [] \<and>
     newRuleButton x = None \<and> dropdown x = None \<and> \<not> dropdownEventHandler x"

definition pending_ok :: "world \<Rightarrow> pending_call \<Rightarrow> bool" where
  "pending_ok w p \<longleftrightarrow>
     (\<forall>selName d. req p = FindMatchingRules selName d \<longrightarrow>
        (\<exists>s. s < length (sessions w) \<and> doneCallbacks p = [RulesDone s] \<and>
             failCallbacks p = [RulesFail s] \<and> fresh_session (sessions w ! s) \<and>
             selectorName (sessions w ! s) = selName)) \<and>
     (\<forall>e. req p = GetFileInfoList e \<longrightarrow>
        (\<exists>s n. s < length (sessions w) \<and> doneCallbacks p = [FileInfosDone s n] \<and>
             failCallbacks p = [] \<and>
             newRuleButton (sessions w ! s) = Some \<lparr>disabled = True, btn_dropdown = False\<rparr> \<and>
             cssFileInfos (sessions w ! s) = [] \<and> dropdown (sessions w ! s) = None)) \<and>
     (\<forall>path. req p = GetDocumentForPath path \<longrightarrow>
        (\<exists>selName ed. doneCallbacks p = [AddRuleDone selName (Some ed)] \<and>
             failCallbacks p = [] \<and> ed < length (editors w)))"

definition session_ok :: "world \<Rightarrow> sid \<Rightarrow> bool" where
  "session_ok w s \<longleftrightarrow>
     (dropdownEventHandler (sessions w ! s) \<longleftrightarrow> dropdown (sessions w ! s) \<noteq> None) \<and>
     (newRuleButton (sessions w ! s) = None \<longrightarrow>
        cssFileInfos (sessions w ! s) = [] \<and> dropdown (sessions w ! s) = None) \<and>
     (\<forall>b. newRuleButton (sessions w ! s) = Some b \<longrightarrow>
        (\<exists>ed. cssInlineEditor (sessions w ! s) = Some ed \<and> ed < length (editors w) \<and>
              (ed, s) \<in> set (newRuleHandlers w)) \<and>
        (s \<notin> set (owners (pending w)) \<longrightarrow>
           (\<not> disabled b) = (cssFileInfos (sessions w ! s) \<noteq> []) \<and>
           btn_dropdown b = (1 < length (cssFileInfos (sessions w ! s)))) \<and>
        (dropdown (sessions w ! s) \<noteq> None \<longrightarrow> 2 \<le> length (cssFileInfos (sessions w ! s))))"

definition registry_ok :: "world \<Rightarrow> bool" where
  "registry_ok w \<longleftrightarrow>
     distinct (map fst (newRuleHandlers w)) \<and>
     (\<forall>(ed, s) \<in> set (newRuleHandlers w).
        ed < length (editors w) \<and> s < length (sessions w) \<and>
        cssInlineEditor (sessions w ! s) = Some ed)"

definition world_ok :: "world \<Rightarrow> bool" where
  "world_ok w \<longleftrightarrow>
     registry_ok w \<and> (\<forall>p \<in> set (pending w). pending_ok w p) \<and>
     distinct (owners (pending w)) \<and> (\<forall>s < length (sessions w). session_ok w s)"

text \<open>The part of each session that the arrival of the stylesheet list decides: the
  button and the list.\<close>

definition buttons :: "world \<Rightarrow> (button option \<times> file_info list) list" where
  "buttons w = map (\<lambda>x. (newRuleButton x, cssFileInfos x)) (sessions w)"

text \<open>A session is settled when no pending call has a callback of it left.\<close>

definition settled :: "world \<Rightarrow> sid \<Rightarrow> bool" where
  "settled w s \<longleftrightarrow> s < length (sessions w) \<and> s \<notin> set (owners (pending w))"

section \<open>Searching a string\<close>

lemma first_index_None: "first_index c xs = None \<longleftrightarrow> c \<notin> set xs"
  by (induction xs) auto

lemma first_index_Some:
  "first_index c xs = Some i \<Longrightarrow> i < length xs \<and> xs ! i = c \<and> c \<notin> set (take i xs)"
proof (induction xs arbitrary: i)
  case Nil
  then show ?case by simp
next
  case (Cons x xs)
  show ?case
  proof (cases "x = c")
    case True
    with Cons.prems show ?thesis by simp
  next
    case False
    with Cons.prems obtain j where j: "first_index c xs = Some j" "i = Suc j"
      by auto
    from Cons.IH [OF j(1)] False j(2) show ?thesis by simp
  qed
qed

lemma last_index_None: "last_index c xs = None \<longleftrightarrow> c \<notin> set xs"
  by (induction xs) (auto split: option.splits)

lemma last_index_Some:
  "last_index c xs = Some i \<Longrightarrow> i < length xs \<and> xs ! i = c \<and> c \<notin> set (drop (Suc i) xs)"
proof (induction xs arbitrary: i)
  case Nil
  then show ?case by simp
next
  case (Cons x xs)
  show ?case
  proof (cases "last_index c xs")
    case None
    with Cons.prems have "x = c" "i = 0"
      by (auto split: if_splits)
    with None show ?thesis by (simp add: last_index_None)
  next
    case (Some j)
    with Cons.prems have i: "i = Suc j" by simp
    from Cons.IH [OF Some] i show ?thesis by simp
  qed
qed

lemma js_substr_prefix:
  "js_substr s 0 n = take (nat (min (max n 0) (int (length s)))) s"
  by (simp add: js_substr_def Let_def)

lemma js_substring_ordered:
  "a \<le> b \<Longrightarrow> b \<le> length s \<Longrightarrow> js_substring s (int a) (int b) = take (b - a) (drop a s)"
  by (simp add: js_substring_def Let_def min_def max_def)

text \<open>The start of the slice: one past the last space before the offset, or 0.\<close>

lemma slice_start:
  assumes "C \<le> length V"
  obtains s where "s \<le> C"
    and "s = 0 \<or> V ! (s - 1) = CHR '' ''"
    and "CHR '' '' \<notin> set (drop s (take C V))"
    and "(if js_lastIndexOf (take C V) CHR '' '' = - 1 then 0
          else js_lastIndexOf (take C V) CHR '' '' + 1) = int s"
proof (cases "last_index CHR '' '' (take C V)")
  case None
  show ?thesis
  proof (rule that [of 0])
    show "CHR '' '' \<notin> set (drop 0 (take C V))"
      using None by (simp add: last_index_None)
    show "(if js_lastIndexOf (take C V) CHR '' '' = - 1 then 0
           else js_lastIndexOf (take C V) CHR '' '' + 1) = int 0"
      using None by (simp add: js_lastIndexOf_def)
  qed simp_all
next
  case (Some i)
  from last_index_Some [OF Some] assms
  have i: "i < C" "V ! i = CHR '' ''" "CHR '' '' \<notin> set (drop (Suc i) (take C V))"
    by auto
  show ?thesis
  proof (rule that [of "Suc i"])
    show "Suc i \<le> C" using i(1) by simp
    show "Suc i = 0 \<or> V ! (Suc i - 1) = CHR '' ''" using i(2) by simp
    show "CHR '' '' \<notin> set (drop (Suc i) (take C V))" by (rule i(3))
    show "(if js_lastIndexOf (take C V) CHR '' '' = - 1 then 0
           else js_lastIndexOf (take C V) CHR '' '' + 1) = int (Suc i)"
      using Some by (simp add: js_lastIndexOf_def)
  qed
qed

text \<open>The end of the slice: the first space at or after the offset, or the length.\<close>

lemma slice_end:
  assumes "C \<le> length V"
  obtains e where "C \<le> e" and "e \<le> length V"
    and "e = length V \<or> V ! e = CHR '' ''"
    and "CHR '' '' \<notin> set (take (e - C) (drop C V))"
    and "(case first_index CHR '' '' (drop C V) of None \<Rightarrow> - 1 | Some i \<Rightarrow> int (C + i)) =
           (if e = length V \<and> first_index CHR '' '' (drop C V) = None then - 1 else int e)"
proof (cases "first_index CHR '' '' (drop C V)")
  case None
  show ?thesis
  proof (rule that [of "length V"])
    show "C \<le> length V" by (rule assms)
    show "CHR '' '' \<notin> set (take (length V - C) (drop C V))"
      using None by (simp add: first_index_None)
    show "(case first_index CHR '' '' (drop C V) of None \<Rightarrow> - 1 | Some i \<Rightarrow> int (C + i)) =
            (if length V = length V \<and> first_index CHR '' '' (drop C V) = None then - 1
             else int (length V))"
      using None by simp
  qed simp_all
next
  case (Some j)
  from first_index_Some [OF Some] assms
  have j: "C + j < length V" "V ! (C + j) = CHR '' ''"
    "CHR '' '' \<notin> set (take j (drop C V))"
    by auto
  show ?thesis
  proof (rule that [of "C + j"])
    show "C + j \<le> length V" using j(1) by simp
    show "C + j = length V \<or> V ! (C + j) = CHR '' ''" using j(2) by simp
    show "CHR '' '' \<notin> set (take (C + j - C) (drop C V))" using j(3) by simp
    show "(case first_index CHR '' '' (drop C V) of None \<Rightarrow> - 1 | Some i \<Rightarrow> int (C + i)) =
            (if C + j = length V \<and> first_index CHR '' '' (drop C V) = None then - 1
             else int (C + j))"
      using Some by simp
  qed simp
qed

lemma slice_split:
  assumes "s \<le> C" "C \<le> e"
  shows "take (e - s) (drop s V) = drop s (take C V) @ take (e - C) (drop C V)"
proof -
  have "take (e - s) (drop s V) = drop s (take e V)"
    by (simp add: drop_take)
  also have "take e V = take C V @ take (e - C) (drop C V)"
    using assms(2) by (metis le_add_diff_inverse take_add)
  also have "drop s (take C V @ take (e - C) (drop C V)) =
             drop s (take C V) @ take (e - C) (drop C V)"
    using assms(1) by (cases "C \<le> length V") simp_all
  finally show ?thesis .
qed

section \<open>The selector resolver: class and id attributes\<close>

lemma getSelectorName_class_unfold:
  assumes "tokenType (position tagInfo) = ATTR_NAME \<or> tokenType (position tagInfo) = ATTR_VALUE"
    and "attr_name (attr tagInfo) = ''class''"
  shows "getSelectorName tagInfo =
    (let attributeValue = attr_value (attr tagInfo);
         startIndex = js_lastIndexOf
                        (js_substr attributeValue 0 (offset (position tagInfo))) CHR '' '';
         endIndex = js_indexOf attributeValue CHR '' '' (offset (position tagInfo));
         selName = ''.'' @
           js_substring attributeValue
             (if startIndex = - 1 then 0 else startIndex + 1)
             (if endIndex = - 1 then int (length attributeValue) else endIndex)
     in if selName = ''.'' then '''' else selName)"
  using assms unfolding getSelectorName_def by auto

text \<open>
  Claim C1, as amended. For a position in an attribute name or value of the attribute
  \<open>class\<close>, with value \<open>V\<close> and the offset clamped into \<open>C\<close> between 0 and the length
  of \<open>V\<close>, the resolver returns the dot followed by the slice \<open>V[s..e)\<close> around \<open>C\<close>
  that contains no space character and is bounded on each side by a space or an end of
  the value; it returns the empty string exactly when that slice is empty, which is
  when the character before the offset (if any) and the character at the offset (if
  any) are both spaces.
\<close>

theorem getSelectorName_class:
  assumes tok: "tokenType (position tagInfo) = ATTR_NAME \<or>
                tokenType (position tagInfo) = ATTR_VALUE"
    and cls: "attr_name (attr tagInfo) = ''class''"
    and V: "V = attr_value (attr tagInfo)"
    and C: "C = nat (min (max (offset (position tagInfo)) 0) (int (length V)))"
  shows "\<exists>s e. s \<le> C \<and> C \<le> e \<and> e \<le> length V \<and>
           (s = 0 \<or> V ! (s - 1) = CHR '' '') \<and>
           (e = length V \<or> V ! e = CHR '' '') \<and>
           CHR '' '' \<notin> set (take (e - s) (drop s V)) \<and>
           getSelectorName tagInfo =
             (if s = e then '''' else ''.'' @ take (e - s) (drop s V)) \<and>
           (s = e \<longleftrightarrow>
              (C = 0 \<or> V ! (C - 1) = CHR '' '') \<and> (C = length V \<or> V ! C = CHR '' ''))"
proof -
  have CV: "C \<le> length V" using C by simp
  have k: "nat (min (max (offset (position tagInfo)) 0) (int (length V))) = C"
    using C by simp
  obtain s where s: "s \<le> C" "s = 0 \<or> V ! (s - 1) = CHR '' ''"
    "CHR '' '' \<notin> set (drop s (take C V))"
    "(if js_lastIndexOf (take C V) CHR '' '' = - 1 then 0
      else js_lastIndexOf (take C V) CHR '' '' + 1) = int s"
    using slice_start [OF CV] by blast
  obtain e where e: "C \<le> e" "e \<le> length V" "e = length V \<or> V ! e = CHR '' ''"
    "CHR '' '' \<notin> set (take (e - C) (drop C V))"
    "(case first_index CHR '' '' (drop C V) of None \<Rightarrow> - 1 | Some i \<Rightarrow> int (C + i)) =
       (if e = length V \<and> first_index CHR '' '' (drop C V) = None then - 1 else int e)"
    using slice_end [OF CV] by blast
  let ?slice = "take (e - s) (drop s V)"
  have split: "?slice = drop s (take C V) @ take (e - C) (drop C V)"
    using s(1) e(1) by (rule slice_split)
  have free: "CHR '' '' \<notin> set ?slice"
    unfolding split using s(3) e(4) by simp
  have a: "(if js_lastIndexOf (js_substr V 0 (offset (position tagInfo))) CHR '' '' = - 1 then 0
            else js_lastIndexOf (js_substr V 0 (offset (position tagInfo))) CHR '' '' + 1) = int s"
    unfolding js_substr_prefix k by (rule s(4))
  have b: "(if js_indexOf V CHR '' '' (offset (position tagInfo)) = - 1 then int (length V)
            else js_indexOf V CHR '' '' (offset (position tagInfo))) = int e"
    unfolding js_indexOf_def Let_def k e(5) by simp
  have sub: "js_substring V (int s) (int e) = ?slice"
    using s(1) e(1,2) by (intro js_substring_ordered) simp_all
  have empty: "?slice = [] \<longleftrightarrow> s = e"
    using s(1) e(1,2) by auto
  have "getSelectorName tagInfo = (if ''.'' @ ?slice = ''.'' then '''' else ''.'' @ ?slice)"
    unfolding getSelectorName_class_unfold [OF tok cls] V [symmetric] Let_def a b sub ..
  then have res: "getSelectorName tagInfo = (if s = e then '''' else ''.'' @ ?slice)"
    using empty by simp
  have touch: "s = e \<longleftrightarrow>
      (C = 0 \<or> V ! (C - 1) = CHR '' '') \<and> (C = length V \<or> V ! C = CHR '' '')"
  proof
    assume "s = e"
    with s(1) e(1) have "s = C" "e = C" by simp_all
    with s(2) e(3) show "(C = 0 \<or> V ! (C - 1) = CHR '' '') \<and> (C = length V \<or> V ! C = CHR '' '')"
      by simp
  next
    assume bd: "(C = 0 \<or> V ! (C - 1) = CHR '' '') \<and> (C = length V \<or> V ! C = CHR '' '')"
    have "s = C"
    proof (rule ccontr)
      assume "s \<noteq> C"
      with s(1) have lt: "s < C" by simp
      with bd have sp: "V ! (C - 1) = CHR '' ''" by simp
      have "drop s (take C V) ! (C - 1 - s) = V ! (C - 1)"
        using lt CV by simp
      moreover have "C - 1 - s < length (drop s (take C V))"
        using lt CV by simp
      ultimately have "V ! (C - 1) \<in> set (drop s (take C V))"
        by (metis nth_mem)
      with sp s(3) show False by simp
    qed
    moreover have "e = C"
    proof (rule ccontr)
      assume "e \<noteq> C"
      with e(1) have lt: "C < e" by simp
      with e(2) bd have sp: "V ! C = CHR '' ''" by simp
      have "take (e - C) (drop C V) ! 0 = V ! C"
        using lt e(2) by simp
      moreover have "0 < length (take (e - C) (drop C V))"
        using lt e(2) by simp
      ultimately have "V ! C \<in> set (take (e - C) (drop C V))"
        by (metis nth_mem)
      with sp e(4) show False by simp
    qed
    ultimately show "s = e" by simp
  qed
  from s(1,2) e(1,2,3) free res touch show ?thesis by blast
qed

text \<open>The theorem at \<open>class="error-dialog modal hide"\<close>, offset 15.\<close>

theorem getSelectorName_class_witness:
  "\<exists>s e. s \<le> 15 \<and> 15 \<le> e \<and> e \<le> length ''error-dialog modal hide'' \<and>
     (s = 0 \<or> ''error-dialog modal hide'' ! (s - 1) = CHR '' '') \<and>
     (e = length ''error-dialog modal hide'' \<or> ''error-dialog modal hide'' ! e = CHR '' '') \<and>
     CHR '' '' \<notin> set (take (e - s) (drop s ''error-dialog modal hide'')) \<and>
     getSelectorName ex_class_modal =
       (if s = e then '''' else ''.'' @ take (e - s) (drop s ''error-dialog modal hide'')) \<and>
     (s = e \<longleftrightarrow>
        ((15::nat) = 0 \<or> ''error-dialog modal hide'' ! (15 - 1) = CHR '' '') \<and>
        (15 = length ''error-dialog modal hide'' \<or> ''error-dialog modal hide'' ! 15 = CHR '' ''))"
proof -
  have tok: "tokenType (position ex_class_modal) = ATTR_NAME \<or>
             tokenType (position ex_class_modal) = ATTR_VALUE"
    by (simp add: ex_class_modal_def)
  have cls: "attr_name (attr ex_class_modal) = ''class''"
    by (simp add: ex_class_modal_def)
  have V: "''error-dialog modal hide'' = attr_value (attr ex_class_modal)"
    by (simp add: ex_class_modal_def)
  have C: "15 = nat (min (max (offset (position ex_class_modal)) 0)
                      (int (length ''error-dialog modal hide'')))"
    by (simp add: ex_class_modal_def)
  show ?thesis by (rule getSelectorName_class [OF tok cls V C])
qed

text \<open>
  Claim C1 as stated fails at the value \<open>a<TAB>b c\<close> with offset 3: the position is on
  the space that separates \<open>b\<close> from \<open>c\<close>, yet the result is not empty, and the name
  returned contains a tab, which is whitespace.
\<close>

theorem getSelectorName_class_counterexample:
  "tokenType (position ex_class_tab) = ATTR_VALUE \<and>
   attr_name (attr ex_class_tab) = ''class'' \<and>
   attr_value (attr ex_class_tab) ! nat (offset (position ex_class_tab)) = CHR '' '' \<and>
   getSelectorName ex_class_tab = [CHR ''.'', CHR ''a'', CHR 0x09, CHR ''b''] \<and>
   getSelectorName ex_class_tab \<noteq> '''' \<and>
   CHR 0x09 \<in> set (getSelectorName ex_class_tab)"
  by code_simp

text \<open>
  Claim C2. For a position in an attribute name or value of the attribute \<open>id\<close>, the
  resolver returns \<open>#\<close> followed by the whole attribute value, whatever the offset.
\<close>

theorem getSelectorName_id:
  assumes "tokenType (position tagInfo) = ATTR_NAME \<or>
           tokenType (position tagInfo) = ATTR_VALUE"
    and "attr_name (attr tagInfo) = ''id''"
  shows "getSelectorName tagInfo = ''#'' @ attr_value (attr tagInfo)"
  using assms unfolding getSelectorName_def by auto

text \<open>The theorem at \<open>id="main-panel"\<close>, offset 4.\<close>

theorem getSelectorName_id_witness:
  "(tokenType (position ex_id_main) = ATTR_NAME \<or>
    tokenType (position ex_id_main) = ATTR_VALUE) \<and>
   attr_name (attr ex_id_main) = ''id'' \<and>
   getSelectorName ex_id_main = ''#main-panel''"
proof -
  have tok: "tokenType (position ex_id_main) = ATTR_NAME \<or>
             tokenType (position ex_id_main) = ATTR_VALUE"
    by (simp add: ex_id_main_def)
  have idn: "attr_name (attr ex_id_main) = ''id''"
    by (simp add: ex_id_main_def)
  from getSelectorName_id [OF tok idn] tok idn show ?thesis
    by (simp add: ex_id_main_def)
qed

section \<open>The invariant is kept by every input\<close>

lemma owners_simps [simp]:
  "owners [] = []"
  "owners (p # ps) = List.map_filter cb_session (doneCallbacks p) @ owners ps"
  "owners (ps @ qs) = owners ps @ owners qs"
  by (simp_all add: owners_def)

lemma map_filter_single [simp]:
  "List.map_filter f [x] = (case f x of None \<Rightarrow> [] | Some y \<Rightarrow> [y])"
  by (simp add: List.map_filter_def split: option.splits)

lemma world_ok_init: "world_ok init_world"
  by (simp add: world_ok_def init_world_def registry_ok_def)

text \<open>What the focus operations leave alone.\<close>

lemma updateCommands_fields [simp]:
  "newRuleHandlers (updateCommands s w) = newRuleHandlers w"
  "sessions (updateCommands s w) = sessions w"
  "editors (updateCommands s w) = editors w"
  "pending (updateCommands s w) = pending w"
  "htmlClick (updateCommands s w) = htmlClick w"
  "focused (updateCommands s w) = focused w"
  "effects (updateCommands s w) = effects w"
  by (simp_all add: updateCommands_def split: option.splits)

lemma focus_event_fields [simp]:
  "newRuleHandlers (focus_event t w) = newRuleHandlers w"
  "sessions (focus_event t w) = sessions w"
  "editors (focus_event t w) = editors w"
  "pending (focus_event t w) = pending w"
  "htmlClick (focus_event t w) = htmlClick w"
  "focused (focus_event t w) = focused w"
  "effects (focus_event t w) = effects w"
  by (simp_all add: focus_event_def split: option.splits)

lemma set_focus_fields [simp]:
  "newRuleHandlers (set_focus t w) = newRuleHandlers w"
  "sessions (set_focus t w) = sessions w"
  "editors (set_focus t w) = editors w"
  "pending (set_focus t w) = pending w"
  "htmlClick (set_focus t w) = htmlClick w"
  "focused (set_focus t w) = t"
  "effects (set_focus t w) = effects w"
  by (simp_all add: set_focus_def)

lemma upd_session_fields [simp]:
  "newRuleHandlers (upd_session s f w) = newRuleHandlers w"
  "sessions (upd_session s f w) = (sessions w)[s := f (sessions w ! s)]"
  "editors (upd_session s f w) = editors w"
  "pending (upd_session s f w) = pending w"
  "htmlClick (upd_session s f w) = htmlClick w"
  "focused (upd_session s f w) = focused w"
  "effects (upd_session s f w) = effects w"
  "newRuleCmdEnabled (upd_session s f w) = newRuleCmdEnabled w"
  by (simp_all add: upd_session_def)

lemma addRule_fields [simp]:
  "newRuleHandlers (addRule selName ed path w) = newRuleHandlers w"
  "sessions (addRule selName ed path w) = sessions w"
  "editors (addRule selName ed path w) = editors w"
  "pending (addRule selName ed path w) = pending w @
     [\<lparr>req = GetDocumentForPath path, doneCallbacks = [AddRuleDone selName ed],
       failCallbacks = []\<rparr>]"
  "htmlClick (addRule selName ed path w) = htmlClick w"
  "focused (addRule selName ed path w) = focused w"
  "effects (addRule selName ed path w) = effects w"
  "newRuleCmdEnabled (addRule selName ed path w) = newRuleCmdEnabled w"
  by (simp_all add: addRule_def)

lemma pending_ok_cong:
  assumes "sessions w' = sessions w" "editors w' = editors w"
  shows "pending_ok w' p = pending_ok w p"
  unfolding pending_ok_def assms ..

lemma session_ok_cong:
  assumes "sessions w' = sessions w" "pending w' = pending w" "editors w' = editors w"
    "newRuleHandlers w' = newRuleHandlers w"
  shows "session_ok w' s = session_ok w s"
  unfolding session_ok_def assms ..

lemma registry_ok_cong:
  assumes "sessions w' = sessions w" "editors w' = editors w"
    "newRuleHandlers w' = newRuleHandlers w"
  shows "registry_ok w' = registry_ok w"
  unfolding registry_ok_def assms ..

lemma world_ok_cong:
  assumes "sessions w' = sessions w" "pending w' = pending w" "editors w' = editors w"
    "newRuleHandlers w' = newRuleHandlers w"
  shows "world_ok w' = world_ok w"
  unfolding world_ok_def pending_ok_cong [OF assms(1,3)] session_ok_cong [OF assms]
    registry_ok_cong [OF assms(1,3,4)] assms ..

lemma world_ok_set_focus [simp]: "world_ok (set_focus t w) = world_ok w"
  by (rule world_ok_cong) simp_all

lemma world_ok_updateCommands [simp]: "world_ok (updateCommands s w) = world_ok w"
  by (rule world_ok_cong) simp_all

lemma owner_in_pending:
  assumes "s \<in> set (owners ps)"
  obtains p cb where "p \<in> set ps" "cb \<in> set (doneCallbacks p)" "cb_session cb = Some s"
  using assms by (auto simp: owners_def List.map_filter_def)

lemma owner_intro:
  assumes "p \<in> set ps" "cb \<in> set (doneCallbacks p)" "cb_session cb = Some s"
  shows "s \<in> set (owners ps)"
proof -
  have "s \<in> set (List.map_filter cb_session (doneCallbacks p))"
    using assms(2,3) by (force simp: List.map_filter_def)
  with assms(1) show ?thesis by (auto simp: owners_def)
qed

lemma owner_button:
  assumes ok: "\<forall>p \<in> set (pending w). pending_ok w p"
    and s: "s \<in> set (owners (pending w))"
  shows "s < length (sessions w) \<and> cssFileInfos (sessions w ! s) = [] \<and>
         dropdown (sessions w ! s) = None \<and>
         (newRuleButton (sessions w ! s) = None \<or>
          newRuleButton (sessions w ! s) = Some \<lparr>disabled = True, btn_dropdown = False\<rparr>)"
proof -
  from s obtain p cb where p: "p \<in> set (pending w)" "cb \<in> set (doneCallbacks p)"
    "cb_session cb = Some s"
    by (rule owner_in_pending)
  from ok p(1) have "pending_ok w p" by blast
  with p(2,3) show ?thesis
    by (cases "req p") (auto simp: pending_ok_def fresh_session_def)
qed

lemma world_okD:
  assumes "world_ok w"
  shows "registry_ok w"
    and "\<And>p. p \<in> set (pending w) \<Longrightarrow> pending_ok w p"
    and "distinct (owners (pending w))"
    and "\<And>s. s < length (sessions w) \<Longrightarrow> session_ok w s"
  using assms unfolding world_ok_def by blast+

lemma world_okI:
  assumes "registry_ok w"
    and "\<And>p. p \<in> set (pending w) \<Longrightarrow> pending_ok w p"
    and "distinct (owners (pending w))"
    and "\<And>s. s < length (sessions w) \<Longrightarrow> session_ok w s"
  shows "world_ok w"
  using assms unfolding world_ok_def by blast

text \<open>A pending call stays well-formed when the sessions its callbacks belong to are
  untouched and no widget disappears.\<close>

lemma pending_ok_mono:
  assumes pk: "pending_ok w p"
    and len: "length (sessions w) \<le> length (sessions w')"
    and eds: "length (editors w) \<le> length (editors w')"
    and same: "\<And>t cb. cb \<in> set (doneCallbacks p) \<Longrightarrow> cb_session cb = Some t \<Longrightarrow>
                 t < length (sessions w) \<Longrightarrow> sessions w' ! t = sessions w ! t"
  shows "pending_ok w' p"
proof (cases "req p")
  case (FindMatchingRules selName d)
  with pk obtain s where s: "s < length (sessions w)" "doneCallbacks p = [RulesDone s]"
    "failCallbacks p = [RulesFail s]" "fresh_session (sessions w ! s)"
    "selectorName (sessions w ! s) = selName"
    unfolding pending_ok_def by blast
  have "sessions w' ! s = sessions w ! s"
    by (rule same [of "RulesDone s"]) (simp_all add: s)
  with s len have "s < length (sessions w') \<and> doneCallbacks p = [RulesDone s] \<and>
    failCallbacks p = [RulesFail s] \<and> fresh_session (sessions w' ! s) \<and>
    selectorName (sessions w' ! s) = selName"
    by simp
  with FindMatchingRules show ?thesis
    unfolding pending_ok_def by auto
next
  case (GetFileInfoList e)
  with pk obtain s n where s: "s < length (sessions w)" "doneCallbacks p = [FileInfosDone s n]"
    "failCallbacks p = []"
    "newRuleButton (sessions w ! s) = Some \<lparr>disabled = True, btn_dropdown = False\<rparr>"
    "cssFileInfos (sessions w ! s) = []" "dropdown (sessions w ! s) = None"
    unfolding pending_ok_def by blast
  have "sessions w' ! s = sessions w ! s"
    by (rule same [of "FileInfosDone s n"]) (simp_all add: s)
  with s len have "s < length (sessions w') \<and> doneCallbacks p = [FileInfosDone s n] \<and>
    failCallbacks p = [] \<and>
    newRuleButton (sessions w' ! s) = Some \<lparr>disabled = True, btn_dropdown = False\<rparr> \<and>
    cssFileInfos (sessions w' ! s) = [] \<and> dropdown (sessions w' ! s) = None"
    by simp
  with GetFileInfoList show ?thesis
    unfolding pending_ok_def by auto
next
  case (GetDocumentForPath path)
  with pk obtain selName ed where "doneCallbacks p = [AddRuleDone selName (Some ed)]"
    "failCallbacks p = []" "ed < length (editors w)"
    unfolding pending_ok_def by blast
  with eds have "doneCallbacks p = [AddRuleDone selName (Some ed)] \<and>
    failCallbacks p = [] \<and> ed < length (editors w')"
    by simp
  with GetDocumentForPath show ?thesis
    unfolding pending_ok_def by auto
qed

lemma world_ok_addRule:
  assumes "world_ok w" "ed < length (editors w)"
  shows "world_ok (addRule selName (Some ed) path w)"
proof -
  let ?w = "addRule selName (Some ed) path w"
  have own: "owners (pending ?w) = owners (pending w)"
    by simp
  have old: "pending_ok ?w p = pending_ok w p" for p
    by (rule pending_ok_cong) simp_all
  have new: "pending_ok ?w
        \<lparr>req = GetDocumentForPath path, doneCallbacks = [AddRuleDone selName (Some ed)],
         failCallbacks = []\<rparr>"
    using assms(2) by (simp add: pending_ok_def)
  have 4: "session_ok ?w s = session_ok w s" for s
    unfolding session_ok_def own by simp
  have 1: "registry_ok ?w = registry_ok w"
    by (rule registry_ok_cong) simp_all
  show ?thesis
    using assms(1) new unfolding world_ok_def own 1 4 old by (auto simp: old)
qed

lemma cleanupDropdown_fields [simp]:
  "newRuleHandlers (cleanupDropdown s w) = newRuleHandlers w"
  "sessions (cleanupDropdown s w) =
     (sessions w)[s := (sessions w ! s)\<lparr>dropdownEventHandler := False, dropdown := None\<rparr>]"
  "editors (cleanupDropdown s w) = editors w"
  "pending (cleanupDropdown s w) = pending w"
  "htmlClick (cleanupDropdown s w) = filter (\<lambda>x. x \<noteq> s) (htmlClick w)"
  "focused (cleanupDropdown s w) = None"
  "effects (cleanupDropdown s w) = effects w @ [FocusEditor]"
  by (simp_all add: cleanupDropdown_def Let_def)

lemma showDropdown_sessions [simp]:
  "sessions (showDropdown s w) =
     (sessions w)[s := (sessions w ! s)
        \<lparr>dropdown := Some (renderList (cssFileInfos (sessions w ! s))),
         dropdownEventHandler := True\<rparr>]"
proof (cases "s < length (sessions w)")
  case True
  then show ?thesis by (simp add: showDropdown_def Let_def)
next
  case False
  then show ?thesis by (simp add: showDropdown_def Let_def list_update_beyond)
qed

lemma showDropdown_fields [simp]:
  "newRuleHandlers (showDropdown s w) = newRuleHandlers w"
  "editors (showDropdown s w) = editors w"
  "pending (showDropdown s w) = pending w"
  "htmlClick (showDropdown s w) = htmlClick w @ [s]"
  "focused (showDropdown s w) = None"
  "effects (showDropdown s w) = effects w @ [MenusCloseAll]"
  by (simp_all add: showDropdown_def Let_def)

lemma session_upd_swap:
  "(r::session)\<lparr>dropdownEventHandler := a, dropdown := b\<rparr> =
   r\<lparr>dropdown := b, dropdownEventHandler := a\<rparr>"
  by (cases r) simp

lemma enabled_not_owner:
  assumes "world_ok w" "newRuleButton (sessions w ! s) = Some b" "\<not> disabled b"
  shows "s \<notin> set (owners (pending w))"
proof
  assume "s \<in> set (owners (pending w))"
  with assms(1) have "newRuleButton (sessions w ! s) = None \<or>
      newRuleButton (sessions w ! s) = Some \<lparr>disabled = True, btn_dropdown = False\<rparr>"
    using owner_button [of w s] by (simp add: world_ok_def)
  with assms(2,3) show False by auto
qed

lemma session_dropdown_noop:
  "dropdown (r::session) = None \<Longrightarrow> \<not> dropdownEventHandler r \<Longrightarrow>
   r\<lparr>dropdown := None, dropdownEventHandler := False\<rparr> = r"
  by (cases r) simp

lemma world_ok_dropdown_update:
  assumes ok: "world_ok w"
    and ses: "sessions w' = (sessions w)[s := (sessions w ! s)\<lparr>dropdown := dd, dropdownEventHandler := h\<rparr>]"
    and same: "pending w' = pending w" "editors w' = editors w"
      "newRuleHandlers w' = newRuleHandlers w"
    and cond: "dd \<noteq> None \<Longrightarrow> s < length (sessions w) \<Longrightarrow>
       (\<exists>b. newRuleButton (sessions w ! s) = Some b \<and> \<not> disabled b) \<and>
       2 \<le> length (cssFileInfos (sessions w ! s))"
    and closed: "h \<longleftrightarrow> dd \<noteq> None"
  shows "world_ok w'"
proof (cases "s < length (sessions w)")
  case False
  then have "sessions w' = sessions w" by (simp add: ses list_update_beyond)
  with ok same show ?thesis by (simp add: world_ok_cong [of w' w])
next
  case lt: True
  have len: "length (sessions w') = length (sessions w)"
    by (simp add: ses)
  have other: "sessions w' ! t = sessions w ! t" if "t \<noteq> s" for t
    using that by (simp add: ses)
  have self: "sessions w' ! s = (sessions w ! s)\<lparr>dropdown := dd, dropdownEventHandler := h\<rparr>"
    using lt by (simp add: ses)
  have sk_s: "session_ok w s" using ok lt by (rule world_okD(4))
  show ?thesis
  proof (rule world_okI)
    have "cssInlineEditor (sessions w' ! t) = cssInlineEditor (sessions w ! t)" for t
      using other [of t] self by (cases "t = s") simp_all
    then show "registry_ok w'"
      using world_okD(1) [OF ok] unfolding registry_ok_def same len by simp
    show "distinct (owners (pending w'))"
      using world_okD(3) [OF ok] by (simp add: same)
  next
    fix p assume "p \<in> set (pending w')"
    then have p: "p \<in> set (pending w)" by (simp add: same)
    have pk: "pending_ok w p" using ok p by (rule world_okD(2))
    show "pending_ok w' p"
    proof (rule pending_ok_mono [OF pk])
      fix t cb assume cb: "cb \<in> set (doneCallbacks p)" "cb_session cb = Some t"
      show "sessions w' ! t = sessions w ! t"
      proof (cases "t = s")
        case False
        then show ?thesis by (rule other)
      next
        case True
        with cb p have own: "s \<in> set (owners (pending w))"
          by (auto intro: owner_intro)
        from owner_button [OF _ own] ok
        have b: "newRuleButton (sessions w ! s) = None \<or>
            newRuleButton (sessions w ! s) = Some \<lparr>disabled = True, btn_dropdown = False\<rparr>"
          and d: "dropdown (sessions w ! s) = None"
          by (simp_all add: world_ok_def)
        have dd: "dd = None"
          using cond lt b by (cases dd) auto
        with closed have h: "\<not> h" by simp
        from sk_s d have "\<not> dropdownEventHandler (sessions w ! s)"
          by (simp add: session_ok_def)
        with d have "(sessions w ! s)\<lparr>dropdown := None, dropdownEventHandler := False\<rparr> =
            sessions w ! s"
          by (rule session_dropdown_noop)
        with True self dd h show ?thesis by simp
      qed
    qed (simp_all add: len same)
  next
    fix t assume "t < length (sessions w')"
    then have t: "t < length (sessions w)" by (simp add: len)
    have sk: "session_ok w t" using ok t by (rule world_okD(4))
    show "session_ok w' t"
    proof (cases "t = s")
      case False
      with sk show ?thesis by (simp add: session_ok_def same other)
    next
      case True
      show ?thesis
      proof (cases "dd = None")
        case None: True
        with sk True closed show ?thesis
          unfolding session_ok_def same by (simp add: self)
      next
        case c: False
        from cond [OF c lt] obtain b where b: "newRuleButton (sessions w ! s) = Some b"
          "\<not> disabled b" "2 \<le> length (cssFileInfos (sessions w ! s))" by blast
        with sk True closed c show ?thesis
          unfolding session_ok_def same by (simp add: self)
      qed
    qed
  qed
qed

lemma world_ok_cleanupDropdown:
  assumes "world_ok w"
  shows "world_ok (cleanupDropdown s w)"
proof (rule world_ok_dropdown_update [where dd = None and h = False and s = s and w = w])
  show "world_ok w" by (rule assms)
  show "sessions (cleanupDropdown s w) =
      (sessions w)[s := (sessions w ! s)\<lparr>dropdown := None, dropdownEventHandler := False\<rparr>]"
    by (simp add: session_upd_swap)
qed simp_all

lemma world_ok_closeDropdown: "world_ok w \<Longrightarrow> world_ok (closeDropdown s w)"
  by (simp add: closeDropdown_def world_ok_cleanupDropdown)

lemma world_ok_showDropdown:
  assumes "world_ok w" "newRuleButton (sessions w ! s) = Some b" "\<not> disabled b"
    "length (cssFileInfos (sessions w ! s)) \<noteq> 1"
  shows "world_ok (showDropdown s w)"
proof (rule world_ok_dropdown_update [where s = s and w = w])
  show "world_ok w" by (rule assms(1))
  show "sessions (showDropdown s w) = (sessions w)[s := (sessions w ! s)
        \<lparr>dropdown := Some (renderList (cssFileInfos (sessions w ! s))),
         dropdownEventHandler := True\<rparr>]"
    by simp
  show "(\<exists>b. newRuleButton (sessions w ! s) = Some b \<and> \<not> disabled b) \<and>
       2 \<le> length (cssFileInfos (sessions w ! s))" if lt: "s < length (sessions w)"
  proof -
    have "s \<notin> set (owners (pending w))"
      using assms(1,2,3) by (rule enabled_not_owner)
    moreover from assms(1) lt have "session_ok w s" by (simp add: world_ok_def)
    ultimately have "cssFileInfos (sessions w ! s) \<noteq> []"
      using assms(2,3) by (auto simp: session_ok_def)
    with assms(4) have "2 \<le> length (cssFileInfos (sessions w ! s))"
      by (cases "cssFileInfos (sessions w ! s)" rule: remdups_adj.cases) auto
    with assms(2,3) show ?thesis by blast
  qed
qed simp_all

lemma world_ok_handleNewRuleClick:
  assumes ok: "world_ok w" and s: "s < length (sessions w)"
  shows "world_ok (handleNewRuleClick s e w)"
proof (cases "newRuleButton (sessions w ! s)")
  case None
  with ok show ?thesis by (simp add: handleNewRuleClick_def)
next
  case (Some b)
  from ok s have "session_ok w s" by (simp add: world_ok_def)
  with Some obtain ed where ed: "cssInlineEditor (sessions w ! s) = Some ed"
    "ed < length (editors w)"
    by (auto simp: session_ok_def)
  show ?thesis
    using ok Some ed
    by (auto simp: handleNewRuleClick_def world_ok_addRule world_ok_closeDropdown
             intro: world_ok_showDropdown)
qed

lemma find_registry:
  assumes "find (\<lambda>entry. fst entry = ed) (newRuleHandlers w) = Some h"
  shows "h \<in> set (newRuleHandlers w) \<and> fst h = ed"
  using assms by (auto simp: find_Some_iff)

lemma world_ok_handleNewRule:
  assumes "world_ok w"
  shows "world_ok (handleNewRule w)"
proof (cases "getFocusedMultiRangeInlineEditor w")
  case None
  with assms show ?thesis by (simp add: handleNewRule_def)
next
  case (Some ed)
  show ?thesis
  proof (cases "find (\<lambda>entry. fst entry = ed) (newRuleHandlers w)")
    case None
    with Some assms show ?thesis by (simp add: handleNewRule_def)
  next
    case h: (Some h)
    from find_registry [OF h] have "h \<in> set (newRuleHandlers w)" by simp
    with assms have "snd h < length (sessions w)"
      by (auto simp: world_ok_def registry_ok_def)
    with assms Some h show ?thesis
      by (simp add: handleNewRule_def world_ok_handleNewRuleClick)
  qed
qed

lemma session_ok_mono:
  assumes sk: "session_ok w t"
    and same: "sessions w' ! t = sessions w ! t"
    and eds: "length (editors w) \<le> length (editors w')"
    and reg: "set (newRuleHandlers w) \<subseteq> set (newRuleHandlers w')"
    and own: "t \<in> set (owners (pending w)) \<Longrightarrow> t \<in> set (owners (pending w'))"
  shows "session_ok w' t"
proof -
  have 1: "dropdownEventHandler (sessions w' ! t) \<longleftrightarrow> dropdown (sessions w' ! t) \<noteq> None"
    using sk unfolding session_ok_def same by blast
  have 2: "newRuleButton (sessions w' ! t) = None \<longrightarrow>
        cssFileInfos (sessions w' ! t) = [] \<and> dropdown (sessions w' ! t) = None"
    using sk unfolding session_ok_def same by blast
  have 3: "(\<exists>ed. cssInlineEditor (sessions w' ! t) = Some ed \<and> ed < length (editors w') \<and>
              (ed, t) \<in> set (newRuleHandlers w')) \<and>
        (t \<notin> set (owners (pending w')) \<longrightarrow>
           (\<not> disabled b) = (cssFileInfos (sessions w' ! t) \<noteq> []) \<and>
           btn_dropdown b = (1 < length (cssFileInfos (sessions w' ! t)))) \<and>
        (dropdown (sessions w' ! t) \<noteq> None \<longrightarrow> 2 \<le> length (cssFileInfos (sessions w' ! t)))"
    if b: "newRuleButton (sessions w' ! t) = Some b" for b
  proof -
    from sk b have *: "(\<exists>ed. cssInlineEditor (sessions w ! t) = Some ed \<and> ed < length (editors w) \<and>
              (ed, t) \<in> set (newRuleHandlers w))"
      "t \<notin> set (owners (pending w)) \<longrightarrow>
           (\<not> disabled b) = (cssFileInfos (sessions w ! t) \<noteq> []) \<and>
           btn_dropdown b = (1 < length (cssFileInfos (sessions w ! t)))"
      "dropdown (sessions w ! t) \<noteq> None \<longrightarrow> 2 \<le> length (cssFileInfos (sessions w ! t))"
      unfolding session_ok_def same by blast+
    from *(1) obtain ed where "cssInlineEditor (sessions w ! t) = Some ed" "ed < length (editors w)"
      "(ed, t) \<in> set (newRuleHandlers w)" by blast
    with eds reg have "cssInlineEditor (sessions w' ! t) = Some ed \<and> ed < length (editors w') \<and>
              (ed, t) \<in> set (newRuleHandlers w')"
      by (auto simp: same)
    moreover from *(2) own have "t \<notin> set (owners (pending w')) \<longrightarrow>
           (\<not> disabled b) = (cssFileInfos (sessions w' ! t) \<noteq> []) \<and>
           btn_dropdown b = (1 < length (cssFileInfos (sessions w' ! t)))"
      unfolding same by blast
    moreover note *(3) [folded same]
    ultimately show ?thesis by blast
  qed
  show ?thesis
    unfolding session_ok_def using 1 2 3 by blast
qed

lemma registry_ok_mono:
  assumes rk: "registry_ok w"
    and reg: "newRuleHandlers w' = newRuleHandlers w"
    and eds: "length (editors w) \<le> length (editors w')"
    and len: "length (sessions w) \<le> length (sessions w')"
    and same: "\<And>t. t < length (sessions w) \<Longrightarrow>
         cssInlineEditor (sessions w' ! t) = cssInlineEditor (sessions w ! t)"
  shows "registry_ok w'"
  using rk eds len same unfolding registry_ok_def reg by fastforce

lemma owners_less:
  assumes "world_ok w" "s \<in> set (owners (pending w))"
  shows "s < length (sessions w)"
  using owner_button [of w s] assms by (simp add: world_ok_def)

lemma world_ok_provider:
  assumes ok: "world_ok w"
  shows "world_ok (snd (htmlToCSSProvider ext hostEditor p w))"
proof (cases "fst (htmlToCSSProvider ext hostEditor p w)")
  case None
  then have "snd (htmlToCSSProvider ext hostEditor p w) = w"
    by (auto simp: htmlToCSSProvider_def Let_def split: if_splits)
  with ok show ?thesis by simp
next
  case (Some s0)
  define selName where
    "selName = getSelectorName (getTagInfo ext hostEditor (sel_start (getSelection hostEditor)))"
  define s where "s = length (sessions w)"
  define new where "new = \<lparr>selectorName = selName, result = Pending, cssInlineEditor = None,
                    cssFileInfos = [], newRuleButton = None, dropdown = None,
                    dropdownEventHandler = False\<rparr>"
  define entry where "entry = \<lparr>req = FindMatchingRules selName (document hostEditor),
                    doneCallbacks = [RulesDone s], failCallbacks = [RulesFail s]\<rparr>"
  define w' where "w' = snd (htmlToCSSProvider ext hostEditor p w)"
  from Some have w': "w' = w\<lparr>sessions := sessions w @ [new], pending := pending w @ [entry]\<rparr>"
    unfolding w'_def selName_def s_def new_def entry_def
    by (auto simp: htmlToCSSProvider_def Let_def split: if_splits)
  have old: "sessions w' ! t = sessions w ! t" if "t < length (sessions w)" for t
    using that by (simp add: w' nth_append)
  have newnth: "sessions w' ! s = new"
    by (simp add: w' s_def)
  have own': "owners (pending w') = owners (pending w) @ [s]"
    by (simp add: w' entry_def)
  have fresh: "s \<notin> set (owners (pending w))"
    using owners_less [OF ok, of s] by (auto simp: s_def)
  show ?thesis
    unfolding w'_def [symmetric]
  proof (rule world_okI)
    show "registry_ok w'"
      by (rule registry_ok_mono [OF world_okD(1) [OF ok]]) (simp_all add: w' nth_append)
    show "distinct (owners (pending w'))"
      using world_okD(3) [OF ok] fresh by (simp add: own')
  next
    fix q assume "q \<in> set (pending w')"
    then consider "q \<in> set (pending w)" | "q = entry"
      by (auto simp: w')
    then show "pending_ok w' q"
    proof cases
      case 1
      show ?thesis
        by (rule pending_ok_mono [OF world_okD(2) [OF ok 1]]) (simp_all add: w' nth_append)
    next
      case 2
      have "s < length (sessions w')" by (simp add: w' s_def)
      moreover have "fresh_session (sessions w' ! s)" "selectorName (sessions w' ! s) = selName"
        by (simp_all add: newnth new_def fresh_session_def)
      ultimately show ?thesis
        unfolding 2 pending_ok_def entry_def by simp
    qed
  next
    fix t assume "t < length (sessions w')"
    then have "t < length (sessions w) \<or> t = s"
      by (auto simp: w' s_def)
    then consider "t < length (sessions w)" | "t = s"
      by blast
    then show "session_ok w' t"
    proof cases
      case 1
      show ?thesis
      proof (rule session_ok_mono [OF world_okD(4) [OF ok 1]])
        show "sessions w' ! t = sessions w ! t" by (rule old [OF 1])
        show "t \<in> set (owners (pending w'))" if "t \<in> set (owners (pending w))"
          using that by (simp add: own')
      qed (simp_all add: w')
    next
      case 2
      show ?thesis
        unfolding 2 session_ok_def newnth by (simp add: new_def)
    qed
  qed
qed

lemma world_ok_session_update:
  assumes ok: "world_ok w"
    and notown: "s \<notin> set (owners (pending w))"
    and ses: "sessions w' = (sessions w)[s := x]"
    and pend: "pending w' = pending w @ extra"
    and extra: "\<And>p. p \<in> set extra \<Longrightarrow> pending_ok w' p"
      "distinct (owners extra)" "set (owners extra) \<subseteq> {s}"
    and eds: "length (editors w) \<le> length (editors w')"
    and reg: "registry_ok w'" "set (newRuleHandlers w) \<subseteq> set (newRuleHandlers w')"
    and sk: "s < length (sessions w) \<Longrightarrow> session_ok w' s"
  shows "world_ok w'"
proof (rule world_okI)
  show "registry_ok w'" by (rule reg(1))
  show "distinct (owners (pending w'))"
    using world_okD(3) [OF ok] extra(2,3) notown by (auto simp: pend)
next
  fix p assume "p \<in> set (pending w')"
  then consider "p \<in> set (pending w)" | "p \<in> set extra"
    by (auto simp: pend)
  then show "pending_ok w' p"
  proof cases
    case 1
    show ?thesis
    proof (rule pending_ok_mono [OF world_okD(2) [OF ok 1]])
      fix t cb assume "cb \<in> set (doneCallbacks p)" "cb_session cb = Some t"
      with 1 have "t \<in> set (owners (pending w))" by (rule owner_intro)
      with notown have "t \<noteq> s" by blast
      then show "sessions w' ! t = sessions w ! t" by (simp add: ses)
    qed (simp_all add: ses eds)
  next
    case 2
    then show ?thesis by (rule extra(1))
  qed
next
  fix t assume "t < length (sessions w')"
  then have t: "t < length (sessions w)" by (simp add: ses)
  show "session_ok w' t"
  proof (cases "t = s")
    case True
    with sk t show ?thesis by simp
  next
    case False
    show ?thesis
    proof (rule session_ok_mono [OF world_okD(4) [OF ok t]])
      show "sessions w' ! t = sessions w ! t" using False by (simp add: ses)
      show "t \<in> set (owners (pending w'))" if "t \<in> set (owners (pending w))"
        using that by (simp add: pend)
    qed (rule eds reg(2))+
  qed
qed

lemma findMatchingRules_done_fields:
  "newRuleHandlers (findMatchingRules_done ext s rules w) =
     newRuleHandlers w @ [(length (editors w), s)]"
  "editors (findMatchingRules_done ext s rules w) =
     editors w @ [\<lparr>ranges = consolidateRules ext rules, selectedRange = None, cursorPos = None\<rparr>]"
  "pending (findMatchingRules_done ext s rules w) =
     pending w @ [\<lparr>req = GetFileInfoList ''css'',
                   doneCallbacks = [FileInfosDone s (length rules)], failCallbacks = []\<rparr>]"
  "htmlClick (findMatchingRules_done ext s rules w) = htmlClick w"
  "focused (findMatchingRules_done ext s rules w) = focused w"
  "effects (findMatchingRules_done ext s rules w) = effects w"
  "newRuleCmdEnabled (findMatchingRules_done ext s rules w) = newRuleCmdEnabled w"
  by (simp_all add: findMatchingRules_done_def Let_def)

lemma findMatchingRules_done_sessions:
  "sessions (findMatchingRules_done ext s rules w) =
     (sessions w)[s := (sessions w ! s)
        \<lparr>cssInlineEditor := Some (length (editors w)),
         newRuleButton := Some \<lparr>disabled = True, btn_dropdown = False\<rparr>,
         result := resolve (Some (length (editors w))) (result (sessions w ! s))\<rparr>]"
proof (cases "s < length (sessions w)")
  case True
  then show ?thesis by (simp add: findMatchingRules_done_def Let_def)
next
  case False
  then show ?thesis by (simp add: findMatchingRules_done_def Let_def list_update_beyond)
qed

lemma world_ok_findMatchingRules_done:
  assumes ok: "world_ok w"
    and lt: "s < length (sessions w)"
    and fresh: "fresh_session (sessions w ! s)"
    and notown: "s \<notin> set (owners (pending w))"
  shows "world_ok (findMatchingRules_done ext s rules w)"
proof -
  let ?w = "findMatchingRules_done ext s rules w"
  let ?ed = "length (editors w)"
  have self: "sessions ?w ! s = (sessions w ! s)
        \<lparr>cssInlineEditor := Some ?ed,
         newRuleButton := Some \<lparr>disabled = True, btn_dropdown = False\<rparr>,
         result := resolve (Some ?ed) (result (sessions w ! s))\<rparr>"
    using lt by (simp add: findMatchingRules_done_sessions)
  have other: "sessions ?w ! t = sessions w ! t" if "t \<noteq> s" for t
    using that by (simp add: findMatchingRules_done_sessions)
  have len: "length (sessions ?w) = length (sessions w)"
    by (simp add: findMatchingRules_done_sessions)
  have rk: "registry_ok w" using ok by (rule world_okD(1))
  have reg: "registry_ok ?w"
    unfolding registry_ok_def findMatchingRules_done_fields len
  proof (intro conjI ballI)
    show "distinct (map fst (newRuleHandlers w @ [(?ed, s)]))"
      using rk by (auto simp: registry_ok_def)
  next
    fix x assume x: "x \<in> set (newRuleHandlers w @ [(?ed, s)])"
    show "case x of (ed, s') \<Rightarrow> ed < length (editors w @
        [\<lparr>ranges = consolidateRules ext rules, selectedRange = None, cursorPos = None\<rparr>]) \<and>
        s' < length (sessions w) \<and> cssInlineEditor (sessions ?w ! s') = Some ed"
    proof (cases "x = (?ed, s)")
      case True
      then show ?thesis using lt by (simp add: self)
    next
      case False
      with x have xin: "x \<in> set (newRuleHandlers w)" by simp
      obtain ed' s' where xe: "x = (ed', s')" by (cases x)
      from rk xin xe have old: "ed' < length (editors w)" "s' < length (sessions w)"
        "cssInlineEditor (sessions w ! s') = Some ed'"
        by (auto simp: registry_ok_def)
      from old(3) fresh have "s' \<noteq> s" by (auto simp: fresh_session_def)
      with old xe show ?thesis by (simp add: other)
    qed
  qed
  show ?thesis
  proof (rule world_ok_session_update [OF ok notown findMatchingRules_done_sessions
        findMatchingRules_done_fields(3)])
    show "registry_ok ?w" by (rule reg)
    show "session_ok ?w s"
      using fresh lt unfolding session_ok_def self
      by (simp add: fresh_session_def findMatchingRules_done_fields)
  next
    fix p assume "p \<in> set [\<lparr>req = GetFileInfoList ''css'',
                   doneCallbacks = [FileInfosDone s (length rules)], failCallbacks = []\<rparr>]"
    then have p: "p = \<lparr>req = GetFileInfoList ''css'',
                   doneCallbacks = [FileInfosDone s (length rules)], failCallbacks = []\<rparr>"
      by simp
    show "pending_ok ?w p"
      using fresh lt unfolding p pending_ok_def
      by (simp add: self len fresh_session_def)
  qed (auto simp: findMatchingRules_done_fields)
qed

lemma findMatchingRules_fail_fields:
  "newRuleHandlers (findMatchingRules_fail s w) = newRuleHandlers w"
  "sessions (findMatchingRules_fail s w) =
     (sessions w)[s := (sessions w ! s)\<lparr>result := reject (result (sessions w ! s))\<rparr>]"
  "editors (findMatchingRules_fail s w) = editors w"
  "pending (findMatchingRules_fail s w) = pending w"
  "htmlClick (findMatchingRules_fail s w) = htmlClick w"
  "focused (findMatchingRules_fail s w) = focused w"
  "effects (findMatchingRules_fail s w) = effects w @ [ConsoleLog ''Error in findMatchingRules()'']"
  "newRuleCmdEnabled (findMatchingRules_fail s w) = newRuleCmdEnabled w"
  by (simp_all add: findMatchingRules_fail_def)

lemma world_ok_findMatchingRules_fail:
  assumes ok: "world_ok w"
    and notown: "s \<notin> set (owners (pending w))"
  shows "world_ok (findMatchingRules_fail s w)"
proof -
  let ?w = "findMatchingRules_fail s w"
  have ed: "cssInlineEditor (sessions ?w ! t) = cssInlineEditor (sessions w ! t)" for t
    by (cases "t = s"; cases "s < length (sessions w)")
       (simp_all add: findMatchingRules_fail_fields list_update_beyond)
  show ?thesis
  proof (rule world_ok_session_update [OF ok notown findMatchingRules_fail_fields(2), where extra = "[]"])
    show "registry_ok ?w"
      by (rule registry_ok_mono [OF world_okD(1) [OF ok]])
         (simp_all add: findMatchingRules_fail_fields(1,3) ed, simp add: findMatchingRules_fail_fields(2))
    show "session_ok ?w s" if lt: "s < length (sessions w)"
      using world_okD(4) [OF ok lt] lt unfolding session_ok_def
      by (simp add: findMatchingRules_fail_fields)
  qed (simp_all add: findMatchingRules_fail_fields)
qed

lemma getFileInfoList_done_fields:
  "newRuleHandlers (getFileInfoList_done s n fis w) = newRuleHandlers w"
  "editors (getFileInfoList_done s n fis w) = editors w"
  "pending (getFileInfoList_done s n fis w) = pending w"
  "htmlClick (getFileInfoList_done s n fis w) = htmlClick w"
  "effects (getFileInfoList_done s n fis w) = effects w"
  by (simp_all add: getFileInfoList_done_def Let_def)

lemma button_upd:
  "(b::button)\<lparr>disabled := x, btn_dropdown := y\<rparr> = \<lparr>disabled = x, btn_dropdown = y\<rparr>"
  "(b::button)\<lparr>disabled := x\<rparr> = \<lparr>disabled = x, btn_dropdown = btn_dropdown b\<rparr>"
  "(b::button)\<lparr>btn_dropdown := y\<rparr> = \<lparr>disabled = disabled b, btn_dropdown = y\<rparr>"
  by (cases b; simp)+

lemma getFileInfoList_done_sessions:
  assumes lt: "s < length (sessions w)" and b: "newRuleButton (sessions w ! s) = Some b"
  shows "sessions (getFileInfoList_done s n fis w) =
     (sessions w)[s := (sessions w ! s)
        \<lparr>cssFileInfos := fis,
         newRuleButton := Some \<lparr>disabled = (disabled b \<and> fis = []),
                                 btn_dropdown = (btn_dropdown b \<or> 1 < length fis)\<rparr>\<rparr>]"
proof -
  consider "fis = []" | "length fis = 1" | "1 < length fis"
    by (cases fis rule: remdups_adj.cases) auto
  then show ?thesis
  proof cases
    case 1
    have eq: "(sessions w ! s)\<lparr>cssFileInfos := [], newRuleButton :=
          Some \<lparr>disabled = disabled b, btn_dropdown = btn_dropdown b\<rparr>\<rparr> =
        (sessions w ! s)\<lparr>cssFileInfos := []\<rparr>"
      using b by (cases "sessions w ! s") simp
    show ?thesis
      using lt 1 by (simp add: getFileInfoList_done_def Let_def eq)
  next
    case 2
    then have "fis \<noteq> []" "\<not> 1 < length fis" "0 < length fis" by auto
    then show ?thesis
      using lt b by (simp add: getFileInfoList_done_def Let_def button_upd)
  next
    case 3
    then have "fis \<noteq> []" "0 < length fis" by auto
    then show ?thesis
      using lt b 3 by (simp add: getFileInfoList_done_def Let_def button_upd)
  qed
qed

lemma world_ok_getFileInfoList_done:
  assumes ok: "world_ok w"
    and lt: "s < length (sessions w)"
    and b: "newRuleButton (sessions w ! s) = Some \<lparr>disabled = True, btn_dropdown = False\<rparr>"
    and d: "dropdown (sessions w ! s) = None"
    and notown: "s \<notin> set (owners (pending w))"
  shows "world_ok (getFileInfoList_done s n fis w)"
proof -
  let ?w = "getFileInfoList_done s n fis w"
  have ses: "sessions ?w = (sessions w)[s := (sessions w ! s)
        \<lparr>cssFileInfos := fis,
         newRuleButton := Some \<lparr>disabled = (fis = []), btn_dropdown = (1 < length fis)\<rparr>\<rparr>]"
    using getFileInfoList_done_sessions [OF lt b, of n fis] by simp
  have ed: "cssInlineEditor (sessions ?w ! t) = cssInlineEditor (sessions w ! t)" for t
    using lt by (cases "t = s") (simp_all add: ses)
  have sk: "session_ok w s" using ok lt by (rule world_okD(4))
  show ?thesis
  proof (rule world_ok_session_update [OF ok notown ses, where extra = "[]"])
    show "registry_ok ?w"
      by (rule registry_ok_mono [OF world_okD(1) [OF ok]])
         (simp_all add: getFileInfoList_done_fields ed, simp add: ses)
    show "session_ok ?w s"
      using sk b d lt unfolding session_ok_def
      by (simp add: ses getFileInfoList_done_fields)
  qed (simp_all add: getFileInfoList_done_fields)
qed

lemma addRule_done_fields:
  "newRuleHandlers (addRule_done ext selName ed d w) = newRuleHandlers w"
  "sessions (addRule_done ext selName ed d w) = sessions w"
  "pending (addRule_done ext selName ed d w) = pending w"
  "htmlClick (addRule_done ext selName ed d w) = htmlClick w"
  "focused (addRule_done ext selName ed d w) = focused w"
  "newRuleCmdEnabled (addRule_done ext selName ed d w) = newRuleCmdEnabled w"
  "effects (addRule_done ext selName ed d w) = effects w @
     [AddRuleToDocument d selName (getUseTabChar ext) (getSpaceUnits ext)]"
  "length (editors (addRule_done ext selName ed d w)) = length (editors w)"
  by (simp_all add: addRule_done_def Let_def split: option.splits)

lemma world_ok_addRule_done:
  assumes ok: "world_ok w"
  shows "world_ok (addRule_done ext selName ed d w)"
proof (rule world_okI)
  let ?w = "addRule_done ext selName ed d w"
  show "registry_ok ?w"
    by (rule registry_ok_mono [OF world_okD(1) [OF ok]]) (simp_all add: addRule_done_fields)
  show "distinct (owners (pending ?w))"
    using world_okD(3) [OF ok] by (simp add: addRule_done_fields)
  show "pending_ok ?w p" if "p \<in> set (pending ?w)" for p
  proof -
    from that have p: "p \<in> set (pending w)" by (simp add: addRule_done_fields)
    show ?thesis
      by (rule pending_ok_mono [OF world_okD(2) [OF ok p]]) (simp_all add: addRule_done_fields)
  qed
  show "session_ok ?w t" if "t < length (sessions ?w)" for t
  proof -
    from that have t: "t < length (sessions w)" by (simp add: addRule_done_fields)
    show ?thesis
      by (rule session_ok_mono [OF world_okD(4) [OF ok t]]) (simp_all add: addRule_done_fields)
  qed
qed

text \<open>Removing a pending call.\<close>

lemma owners_remove:
  assumes "i < length ps"
  shows "owners ps = owners (take i ps) @ List.map_filter cb_session (doneCallbacks (ps ! i)) @
           owners (drop (Suc i) ps)"
proof -
  have "ps = take i ps @ ps ! i # drop (Suc i) ps"
    using assms by (rule id_take_nth_drop)
  then have "owners ps = owners (take i ps @ ps ! i # drop (Suc i) ps)" by simp
  then show ?thesis by simp
qed

lemma removed_owner:
  assumes dist: "distinct (owners ps)" and i: "i < length ps"
    and cb: "cb \<in> set (doneCallbacks (ps ! i))" "cb_session cb = Some s"
  shows "s \<notin> set (owners (take i ps @ drop (Suc i) ps))"
proof -
  have "s \<in> set (List.map_filter cb_session (doneCallbacks (ps ! i)))"
    using cb by (force simp: List.map_filter_def)
  with dist show ?thesis
    unfolding owners_remove [OF i] by auto
qed

lemma set_remove_subset: "set (take i ps @ drop (Suc i) ps) \<subseteq> set ps"
  by (auto dest: in_set_takeD in_set_dropD)

lemma owner_removed_cases:
  assumes i: "i < length ps" and t: "t \<in> set (owners ps)"
  shows "t \<in> set (owners (take i ps @ drop (Suc i) ps)) \<or>
         (\<exists>cb \<in> set (doneCallbacks (ps ! i)). cb_session cb = Some t)"
  using t unfolding owners_remove [OF i] by (auto simp: List.map_filter_def)

lemma world_ok_remove_pending:
  assumes ok: "world_ok w" and i: "i < length (pending w)"
  shows "world_ok (w\<lparr>pending := take i (pending w) @ drop (Suc i) (pending w)\<rparr>)"
proof (rule world_okI)
  let ?w = "w\<lparr>pending := take i (pending w) @ drop (Suc i) (pending w)\<rparr>"
  let ?p = "pending w ! i"
  have pk: "pending_ok w ?p" using ok i by (auto intro: world_okD(2))
  show "registry_ok ?w"
    using world_okD(1) [OF ok] by (simp add: registry_ok_def)
  show "distinct (owners (pending ?w))"
    using world_okD(3) [OF ok] unfolding owners_remove [OF i] by auto
  show "pending_ok ?w p" if "p \<in> set (pending ?w)" for p
  proof -
    from that set_remove_subset [of i "pending w"] have p: "p \<in> set (pending w)" by auto
    show ?thesis
      by (rule pending_ok_mono [OF world_okD(2) [OF ok p]]) simp_all
  qed
  show "session_ok ?w t" if "t < length (sessions ?w)" for t
  proof -
    from that have t: "t < length (sessions w)" by simp
    have sk: "session_ok w t" using ok t by (rule world_okD(4))
    show ?thesis
    proof (cases "t \<in> set (owners (pending w)) \<and> t \<notin> set (owners (pending ?w))")
      case False
      show ?thesis
        by (rule session_ok_mono [OF sk]) (use False in simp_all)
    next
      case True
      from owner_button [OF _ conjunct1 [OF True]] ok
      have st: "cssFileInfos (sessions w ! t) = []" "dropdown (sessions w ! t) = None"
        "newRuleButton (sessions w ! t) = None \<or>
          newRuleButton (sessions w ! t) = Some \<lparr>disabled = True, btn_dropdown = False\<rparr>"
        by (simp_all add: world_ok_def)
      from sk st show ?thesis
        unfolding session_ok_def by auto
    qed
  qed
qed

lemma world_ok_settle:
  assumes ok: "world_ok w"
  shows "world_ok (settle ext i out w)"
proof (cases "i < length (pending w) \<and> answers (req (pending w ! i)) out")
  case False
  then have "settle ext i out w = w" by (auto simp: settle_def)
  with ok show ?thesis by simp
next
  case True
  then have i: "i < length (pending w)" and ans: "answers (req (pending w ! i)) out"
    by simp_all
  let ?p = "pending w ! i"
  let ?w1 = "w\<lparr>pending := take i (pending w) @ drop (Suc i) (pending w)\<rparr>"
  have ok1: "world_ok ?w1" using ok i by (rule world_ok_remove_pending)
  have pk: "pending_ok w ?p" using ok i by (auto intro: world_okD(2))
  have st: "settle ext i out w =
      fold (run_callback ext out)
        (case out of Failed \<Rightarrow> failCallbacks ?p | _ \<Rightarrow> doneCallbacks ?p) ?w1"
    using True by (simp add: settle_def)
  have notown: "t \<notin> set (owners (pending ?w1))"
    if "cb \<in> set (doneCallbacks ?p)" "cb_session cb = Some t" for cb t
    using removed_owner [OF world_okD(3) [OF ok] i that] by simp
  show ?thesis
  proof (cases "req ?p")
    case (FindMatchingRules selName d)
    with pk obtain s where s: "s < length (sessions w)" "doneCallbacks ?p = [RulesDone s]"
      "failCallbacks ?p = [RulesFail s]" "fresh_session (sessions w ! s)"
      unfolding pending_ok_def by blast
    have no: "s \<notin> set (owners (pending ?w1))"
      by (rule notown [of "RulesDone s"]) (simp_all add: s)
    from ans FindMatchingRules consider rules where "out = RulesFound rules" | "out = Failed"
      by (cases out) simp_all
    then show ?thesis
    proof cases
      case 1
      have "world_ok (findMatchingRules_done ext s rules ?w1)"
        by (rule world_ok_findMatchingRules_done [OF ok1 _ _ no]) (simp_all add: s)
      then show ?thesis unfolding st by (simp add: 1 s)
    next
      case 2
      have "world_ok (findMatchingRules_fail s ?w1)"
        by (rule world_ok_findMatchingRules_fail [OF ok1 no])
      then show ?thesis unfolding st by (simp add: 2 s)
    qed
  next
    case (GetFileInfoList e)
    with pk obtain s n where s: "s < length (sessions w)" "doneCallbacks ?p = [FileInfosDone s n]"
      "failCallbacks ?p = []"
      "newRuleButton (sessions w ! s) = Some \<lparr>disabled = True, btn_dropdown = False\<rparr>"
      "cssFileInfos (sessions w ! s) = []" "dropdown (sessions w ! s) = None"
      unfolding pending_ok_def by blast
    have no: "s \<notin> set (owners (pending ?w1))"
      by (rule notown [of "FileInfosDone s n"]) (simp_all add: s)
    from ans GetFileInfoList consider fis where "out = FileInfosFound fis" | "out = Failed"
      by (cases out) simp_all
    then show ?thesis
    proof cases
      case 1
      have "world_ok (getFileInfoList_done s n fis ?w1)"
        by (rule world_ok_getFileInfoList_done [OF ok1 _ _ _ no]) (simp_all add: s)
      then show ?thesis unfolding st by (simp add: 1 s)
    next
      case 2
      with ok1 show ?thesis unfolding st by (simp add: s)
    qed
  next
    case (GetDocumentForPath path)
    with pk obtain selName ed where s: "doneCallbacks ?p = [AddRuleDone selName (Some ed)]"
      "failCallbacks ?p = []" "ed < length (editors w)"
      unfolding pending_ok_def by blast
    from ans GetDocumentForPath consider d where "out = DocumentOpened d" | "out = Failed"
      by (cases out) simp_all
    then show ?thesis
    proof cases
      case 1
      have "world_ok (addRule_done ext selName (Some ed) d ?w1)"
        using ok1 by (rule world_ok_addRule_done)
      then show ?thesis unfolding st by (simp add: 1 s)
    next
      case 2
      with ok1 show ?thesis unfolding st by (simp add: s)
    qed
  qed
qed

lemma world_ok_fold_closeDropdown: "world_ok w \<Longrightarrow> world_ok (fold closeDropdown ss w)"
  by (induction ss arbitrary: w) (simp_all add: world_ok_closeDropdown)

lemma world_ok_onSelect:
  assumes ok: "world_ok w" and s: "s < length (sessions w)"
    and h: "dropdownEventHandler (sessions w ! s)"
  shows "world_ok (onSelect s path w)"
proof -
  have sk: "session_ok w s" using ok s by (rule world_okD(4))
  with h have "newRuleButton (sessions w ! s) \<noteq> None"
    unfolding session_ok_def by auto
  with sk obtain ed where "cssInlineEditor (sessions w ! s) = Some ed" "ed < length (editors w)"
    unfolding session_ok_def by blast
  with ok show ?thesis
    by (simp add: onSelect_def world_ok_addRule split: option.splits)
qed

lemma world_ok_other_widget:
  assumes ok: "world_ok w"
  shows "world_ok (w\<lparr>editors := editors w @ [ed]\<rparr>)"
proof (rule world_okI)
  let ?w = "w\<lparr>editors := editors w @ [ed]\<rparr>"
  show "registry_ok ?w"
    by (rule registry_ok_mono [OF world_okD(1) [OF ok]]) simp_all
  show "distinct (owners (pending ?w))"
    using world_okD(3) [OF ok] by simp
  show "pending_ok ?w p" if "p \<in> set (pending ?w)" for p
  proof -
    from that have p: "p \<in> set (pending w)" by simp
    show ?thesis
      by (rule pending_ok_mono [OF world_okD(2) [OF ok p]]) simp_all
  qed
  show "session_ok ?w t" if "t < length (sessions ?w)" for t
  proof -
    from that have t: "t < length (sessions w)" by simp
    show ?thesis
      by (rule session_ok_mono [OF world_okD(4) [OF ok t]]) simp_all
  qed
qed

lemma world_ok_step:
  assumes ok: "world_ok w"
  shows "world_ok (step ext i w)"
proof (cases i)
  case (Provide hostEditor p)
  with ok show ?thesis by (simp add: world_ok_provider)
next
  case (Settle k out)
  with ok show ?thesis by (simp add: world_ok_settle)
next
  case (ClickButton s)
  with ok show ?thesis by (simp add: world_ok_handleNewRuleClick)
next
  case NewRuleCommand
  with ok show ?thesis by (simp add: world_ok_handleNewRule)
next
  case ClickOutside
  with ok show ?thesis by (simp add: world_ok_fold_closeDropdown)
next
  case (SelectItem s path)
  with ok show ?thesis by (simp add: world_ok_closeDropdown world_ok_onSelect)
next
  case (DismissDropdown s)
  with ok show ?thesis by (simp add: world_ok_closeDropdown)
next
  case (FocusChange target)
  with ok show ?thesis by (simp split: option.splits)
next
  case (OtherWidget ed)
  with ok show ?thesis by (simp add: world_ok_other_widget)
qed

lemma world_ok_run: "world_ok w \<Longrightarrow> world_ok (run ext ins w)"
  by (induction ins arbitrary: w) (simp_all add: world_ok_step)

lemma world_ok_reachable: "world_ok (run ext ins init_world)"
  by (rule world_ok_run [OF world_ok_init])

section \<open>A settled session keeps its button and its stylesheet list\<close>

lemma buttons_nth:
  "s < length (sessions w) \<Longrightarrow>
   buttons w ! s = (newRuleButton (sessions w ! s), cssFileInfos (sessions w ! s))"
  by (simp add: buttons_def)

lemma length_buttons [simp]: "length (buttons w) = length (sessions w)"
  by (simp add: buttons_def)

lemma buttons_update_same:
  assumes "sessions w' = (sessions w)[s := x]"
    and "s < length (sessions w) \<Longrightarrow> newRuleButton x = newRuleButton (sessions w ! s)"
    and "s < length (sessions w) \<Longrightarrow> cssFileInfos x = cssFileInfos (sessions w ! s)"
  shows "buttons w' = buttons w"
proof (cases "s < length (sessions w)")
  case True
  have "buttons w' = (buttons w)[s := (newRuleButton x, cssFileInfos x)]"
    by (simp add: buttons_def assms(1) map_update)
  also have "\<dots> = (buttons w)[s := buttons w ! s]"
    using assms(2,3) True by (simp add: buttons_nth)
  finally show ?thesis by simp
next
  case False
  then show ?thesis by (simp add: buttons_def assms(1) list_update_beyond)
qed

lemma buttons_update_other:
  assumes "sessions w' = (sessions w)[s := x]" "t \<noteq> s"
  shows "buttons w' ! t = buttons w ! t"
  using assms by (simp add: buttons_def map_update)

lemma buttons_cong: "sessions w' = sessions w \<Longrightarrow> buttons w' = buttons w"
  by (simp add: buttons_def)

lemma buttons_set_focus [simp]: "buttons (set_focus t w) = buttons w"
  by (rule buttons_cong) simp

lemma buttons_addRule [simp]: "buttons (addRule selName ed path w) = buttons w"
  by (rule buttons_cong) simp

lemma owners_addRule [simp]:
  "owners (pending (addRule selName ed path w)) = owners (pending w)"
  by simp

lemma buttons_cleanupDropdown [simp]: "buttons (cleanupDropdown s w) = buttons w"
  by (rule buttons_update_same [where s = s, OF cleanupDropdown_fields(2)]) simp_all

lemma buttons_closeDropdown [simp]: "buttons (closeDropdown s w) = buttons w"
  by (simp add: closeDropdown_def)

lemma pending_closeDropdown [simp]: "pending (closeDropdown s w) = pending w"
  by (simp add: closeDropdown_def)

lemma buttons_showDropdown [simp]: "buttons (showDropdown s w) = buttons w"
  by (rule buttons_update_same [where s = s, OF showDropdown_sessions]) simp_all

lemma buttons_handleNewRuleClick [simp]: "buttons (handleNewRuleClick s e w) = buttons w"
  by (simp add: handleNewRuleClick_def split: option.splits)

lemma owners_handleNewRuleClick [simp]:
  "owners (pending (handleNewRuleClick s e w)) = owners (pending w)"
  by (simp add: handleNewRuleClick_def split: option.splits)

lemma buttons_handleNewRule [simp]: "buttons (handleNewRule w) = buttons w"
  by (simp add: handleNewRule_def split: option.splits)

lemma owners_handleNewRule [simp]:
  "owners (pending (handleNewRule w)) = owners (pending w)"
  by (simp add: handleNewRule_def split: option.splits)

lemma buttons_onSelect [simp]: "buttons (onSelect s path w) = buttons w"
  by (simp add: onSelect_def split: option.splits)

lemma owners_onSelect [simp]:
  "owners (pending (onSelect s path w)) = owners (pending w)"
  by (simp add: onSelect_def split: option.splits)

lemma fold_closeDropdown_frame [simp]:
  "buttons (fold closeDropdown ss w) = buttons w"
  "pending (fold closeDropdown ss w) = pending w"
  by (induction ss arbitrary: w) simp_all

lemma settled_cong:
  assumes "settled w s" "length (sessions w') = length (sessions w)"
    "set (owners (pending w')) \<subseteq> set (owners (pending w))"
  shows "settled w' s"
  using assms unfolding settled_def by auto

lemma frame_provider:
  assumes ok: "world_ok w" and st: "settled w s"
  shows "settled (snd (htmlToCSSProvider ext hostEditor p w)) s \<and>
         buttons (snd (htmlToCSSProvider ext hostEditor p w)) ! s = buttons w ! s"
proof (cases "fst (htmlToCSSProvider ext hostEditor p w)")
  case None
  then have "snd (htmlToCSSProvider ext hostEditor p w) = w"
    by (auto simp: htmlToCSSProvider_def Let_def split: if_splits)
  with st show ?thesis by simp
next
  case (Some s0)
  let ?w = "snd (htmlToCSSProvider ext hostEditor p w)"
  from Some obtain new entry where w': "?w = w\<lparr>sessions := sessions w @ [new],
      pending := pending w @ [entry]\<rparr>" and e: "doneCallbacks entry = [RulesDone (length (sessions w))]"
    by (auto simp: htmlToCSSProvider_def Let_def split: if_splits)
  have lt: "s < length (sessions w)" and no: "s \<notin> set (owners (pending w))"
    using st by (simp_all add: settled_def)
  have "owners (pending ?w) = owners (pending w) @ [length (sessions w)]"
    by (simp add: w' e)
  with lt no have "settled ?w s"
    by (simp add: settled_def w')
  moreover have "buttons ?w ! s = buttons w ! s"
    using lt by (simp add: buttons_def w' nth_append)
  ultimately show ?thesis by simp
qed

lemma frame_settle:
  assumes ok: "world_ok w" and st: "settled w s"
  shows "settled (settle ext i out w) s \<and> buttons (settle ext i out w) ! s = buttons w ! s"
proof (cases "i < length (pending w) \<and> answers (req (pending w ! i)) out")
  case False
  then have "settle ext i out w = w" by (auto simp: settle_def)
  with st show ?thesis by simp
next
  case True
  then have i: "i < length (pending w)" and ans: "answers (req (pending w ! i)) out"
    by simp_all
  let ?p = "pending w ! i"
  let ?w1 = "w\<lparr>pending := take i (pending w) @ drop (Suc i) (pending w)\<rparr>"
  have lt: "s < length (sessions w)" and no: "s \<notin> set (owners (pending w))"
    using st by (simp_all add: settled_def)
  have pk: "pending_ok w ?p" using ok i by (auto intro: world_okD(2))
  have eq: "settle ext i out w =
      fold (run_callback ext out)
        (case out of Failed \<Rightarrow> failCallbacks ?p | _ \<Rightarrow> doneCallbacks ?p) ?w1"
    using True by (simp add: settle_def)
  have sub: "set (owners (pending ?w1)) \<subseteq> set (owners (pending w))"
    unfolding owners_remove [OF i] by auto
  have st1: "settled ?w1 s"
    by (rule settled_cong [OF st]) (use sub in simp_all)
  have b1: "buttons ?w1 = buttons w"
    by (rule buttons_cong) simp
  have neq: "t \<noteq> s" if "cb \<in> set (doneCallbacks ?p)" "cb_session cb = Some t" for cb t
  proof -
    have "?p \<in> set (pending w)" using i by simp
    from owner_intro [OF this that] no show ?thesis by blast
  qed
  have upd: "settled w' s \<and> buttons w' ! s = buttons w ! s"
    if "sessions w' = (sessions ?w1)[t := x]" "t \<noteq> s"
      "set (owners (pending w')) \<subseteq> set (owners (pending ?w1)) \<union> {t}" for w' t x
  proof -
    have "settled w' s"
      using st1 that unfolding settled_def by auto
    moreover have "buttons w' ! s = buttons ?w1 ! s"
      using that(1) that(2) [symmetric] by (rule buttons_update_other)
    ultimately show ?thesis by (simp add: b1)
  qed
  show ?thesis
  proof (cases "req ?p")
    case (FindMatchingRules selName d)
    with pk obtain t where t: "t < length (sessions w)" "doneCallbacks ?p = [RulesDone t]"
      "failCallbacks ?p = [RulesFail t]"
      unfolding pending_ok_def by blast
    have ts: "t \<noteq> s" by (rule neq [of "RulesDone t"]) (simp_all add: t)
    from ans FindMatchingRules consider rules where "out = RulesFound rules" | "out = Failed"
      by (cases out) simp_all
    then show ?thesis
    proof cases
      case 1
      have "settled (findMatchingRules_done ext t rules ?w1) s \<and>
            buttons (findMatchingRules_done ext t rules ?w1) ! s = buttons w ! s"
        by (rule upd [OF findMatchingRules_done_sessions ts])
           (auto simp: findMatchingRules_done_fields)
      then show ?thesis unfolding eq by (simp add: 1 t)
    next
      case 2
      have "settled (findMatchingRules_fail t ?w1) s \<and>
            buttons (findMatchingRules_fail t ?w1) ! s = buttons w ! s"
        by (rule upd [OF findMatchingRules_fail_fields(2) ts])
           (auto simp: findMatchingRules_fail_fields)
      then show ?thesis unfolding eq by (simp add: 2 t)
    qed
  next
    case (GetFileInfoList e)
    with pk obtain t n where t: "t < length (sessions w)" "doneCallbacks ?p = [FileInfosDone t n]"
      "failCallbacks ?p = []"
      "newRuleButton (sessions w ! t) = Some \<lparr>disabled = True, btn_dropdown = False\<rparr>"
      unfolding pending_ok_def by blast
    have ts: "t \<noteq> s" by (rule neq [of "FileInfosDone t n"]) (simp_all add: t)
    from ans GetFileInfoList consider fis where "out = FileInfosFound fis" | "out = Failed"
      by (cases out) simp_all
    then show ?thesis
    proof cases
      case 1
      have "settled (getFileInfoList_done t n fis ?w1) s \<and>
            buttons (getFileInfoList_done t n fis ?w1) ! s = buttons w ! s"
        by (rule upd [OF getFileInfoList_done_sessions ts])
           (auto simp: getFileInfoList_done_fields t)
      then show ?thesis unfolding eq by (simp add: 1 t)
    next
      case 2
      with st1 b1 show ?thesis unfolding eq by (simp add: t)
    qed
  next
    case (GetDocumentForPath path)
    with pk obtain selName ed where t: "doneCallbacks ?p = [AddRuleDone selName (Some ed)]"
      "failCallbacks ?p = []"
      unfolding pending_ok_def by blast
    from ans GetDocumentForPath consider d where "out = DocumentOpened d" | "out = Failed"
      by (cases out) simp_all
    then show ?thesis
    proof cases
      case 1
      have "settled (addRule_done ext selName (Some ed) d ?w1) s"
        by (rule settled_cong [OF st1]) (simp_all add: addRule_done_fields)
      moreover have "buttons (addRule_done ext selName (Some ed) d ?w1) = buttons ?w1"
        by (rule buttons_cong) (simp add: addRule_done_fields)
      ultimately show ?thesis unfolding eq by (simp add: 1 t b1)
    next
      case 2
      with st1 b1 show ?thesis unfolding eq by (simp add: t)
    qed
  qed
qed

lemma frame_same:
  assumes "settled w s" "buttons w' = buttons w" "owners (pending w') = owners (pending w)"
  shows "settled w' s \<and> buttons w' ! s = buttons w ! s"
proof -
  have "length (sessions w') = length (sessions w)"
    using assms(2) by (metis length_buttons)
  with assms show ?thesis by (simp add: settled_def)
qed

lemma frame_step:
  assumes ok: "world_ok w" and st: "settled w s"
  shows "settled (step ext i w) s \<and> buttons (step ext i w) ! s = buttons w ! s"
proof (cases i)
  case (Provide hostEditor p)
  with frame_provider [OF ok st] show ?thesis by simp
next
  case (Settle k out)
  with frame_settle [OF ok st] show ?thesis by simp
next
  case (ClickButton t)
  show ?thesis unfolding ClickButton by (rule frame_same [OF st]) simp_all
next
  case NewRuleCommand
  show ?thesis unfolding NewRuleCommand by (rule frame_same [OF st]) simp_all
next
  case ClickOutside
  show ?thesis unfolding ClickOutside by (rule frame_same [OF st]) simp_all
next
  case (SelectItem t path)
  show ?thesis unfolding SelectItem by (rule frame_same [OF st]) simp_all
next
  case (DismissDropdown t)
  show ?thesis unfolding DismissDropdown by (rule frame_same [OF st]) simp_all
next
  case (FocusChange target)
  show ?thesis unfolding FocusChange by (rule frame_same [OF st]) (simp_all split: option.splits)
next
  case (OtherWidget ed)
  show ?thesis unfolding OtherWidget by (rule frame_same [OF st]) (simp_all add: buttons_def)
qed

lemma frame_run:
  assumes "world_ok w" "settled w s"
  shows "settled (run ext ins w) s \<and> buttons (run ext ins w) ! s = buttons w ! s"
  using assms
proof (induction ins arbitrary: w)
  case Nil
  then show ?case by simp
next
  case (Cons i ins)
  from frame_step [OF Cons.prems] have 1: "settled (step ext i w) s"
    and 2: "buttons (step ext i w) ! s = buttons w ! s" by simp_all
  from Cons.IH [OF world_ok_step [OF Cons.prems(1)] 1] 2 show ?case by simp
qed

section \<open>The provider, the button, the command and rule creation\<close>

text \<open>
  Claim C3. When the language of the selection is not HTML, or the selection starts and
  ends on different lines, or the resolver at the start of the selection yields the
  empty selector, the provider returns \<open>null\<close> at once and leaves the state as it
  was: no call is pending, no session and no widget is created. The position passed in
  plays no part. In particular a selection over two lines never produces a widget.
\<close>

theorem htmlToCSSProvider_declines:
  assumes "languageId hostEditor \<noteq> ''html'' \<or>
           line (sel_start (getSelection hostEditor)) \<noteq> line (sel_end (getSelection hostEditor)) \<or>
           getSelectorName (getTagInfo ext hostEditor (sel_start (getSelection hostEditor))) = ''''"
  shows "htmlToCSSProvider ext hostEditor p w = (None, w) \<and>
         step ext (Provide hostEditor p) w = w"
  using assms by (auto simp: htmlToCSSProvider_def Let_def)

text \<open>The theorem at an HTML editor whose selection runs from line 3 to line 4, on
  an \<open>id\<close> attribute that would resolve to a selector.\<close>

theorem htmlToCSSProvider_declines_witness:
  "languageId ex_host_two_lines = ''html'' \<and>
   getSelectorName (getTagInfo ex_ext ex_host_two_lines (sel_start (getSelection ex_host_two_lines)))
     = ''#main-panel'' \<and>
   line (sel_start (getSelection ex_host_two_lines)) \<noteq>
     line (sel_end (getSelection ex_host_two_lines)) \<and>
   htmlToCSSProvider ex_ext ex_host_two_lines ex_pos init_world = (None, init_world) \<and>
   step ex_ext (Provide ex_host_two_lines ex_pos) init_world = init_world"
proof -
  have l: "line (sel_start (getSelection ex_host_two_lines)) \<noteq>
     line (sel_end (getSelection ex_host_two_lines))"
    by (simp add: ex_host_two_lines_def)
  have h: "languageId ex_host_two_lines = ''html''"
    by (simp add: ex_host_two_lines_def)
  have g: "getSelectorName (getTagInfo ex_ext ex_host_two_lines
      (sel_start (getSelection ex_host_two_lines))) = ''#main-panel''"
    by code_simp
  from htmlToCSSProvider_declines [of ex_host_two_lines ex_ext ex_pos init_world] l h g
  show ?thesis by blast
qed

text \<open>
  Claim C10. While the button of a session carries the class \<open>disabled\<close>, its handler
  changes nothing, whether it is run by a click on the button or by the command routed
  to the focused widget: no call is started, no dropdown is opened, and every widget
  and session is as before.
\<close>

theorem disabled_handler_noop:
  assumes "newRuleButton (sessions w ! s) = Some b" and "disabled b"
  shows "handleNewRuleClick s e w = w \<and>
         step ext (ClickButton s) w = w \<and>
         (getFocusedMultiRangeInlineEditor w = Some ed \<and>
          find (\<lambda>entry. fst entry = ed) (newRuleHandlers w) = Some (ed, s) \<longrightarrow>
            handleNewRule w = w \<and> step ext NewRuleCommand w = w)"
  using assms by (simp add: handleNewRuleClick_def handleNewRule_def)

text \<open>The theorem in the state where the widget is built and focused and the list of
  stylesheets has not arrived.\<close>

theorem disabled_handler_noop_witness:
  "newRuleButton (sessions (run ex_ext ex_built_focused init_world) ! 0) =
     Some \<lparr>disabled = True, btn_dropdown = False\<rparr> \<and>
   getFocusedMultiRangeInlineEditor (run ex_ext ex_built_focused init_world) = Some 0 \<and>
   find (\<lambda>entry. fst entry = 0) (newRuleHandlers (run ex_ext ex_built_focused init_world)) =
     Some (0, 0) \<and>
   handleNewRuleClick 0 True (run ex_ext ex_built_focused init_world) =
     run ex_ext ex_built_focused init_world \<and>
   step ex_ext (ClickButton 0) (run ex_ext ex_built_focused init_world) =
     run ex_ext ex_built_focused init_world \<and>
   handleNewRule (run ex_ext ex_built_focused init_world) =
     run ex_ext ex_built_focused init_world \<and>
   step ex_ext NewRuleCommand (run ex_ext ex_built_focused init_world) =
     run ex_ext ex_built_focused init_world"
proof -
  let ?w = "run ex_ext ex_built_focused init_world"
  have b: "newRuleButton (sessions ?w ! 0) = Some \<lparr>disabled = True, btn_dropdown = False\<rparr>"
    by code_simp
  have d: "disabled \<lparr>disabled = True, btn_dropdown = False\<rparr>"
    by simp
  have f: "getFocusedMultiRangeInlineEditor ?w = Some 0"
    by code_simp
  have r: "find (\<lambda>entry. fst entry = 0) (newRuleHandlers ?w) = Some (0, 0)"
    by code_simp
  from disabled_handler_noop [OF b d, of True ex_ext 0] b f r show ?thesis
    by blast
qed

lemma find_distinct_fst:
  assumes "distinct (map fst xs)" "(a, b) \<in> set xs"
  shows "find (\<lambda>entry. fst entry = a) xs = Some (a, b)"
  using assms
proof (induction xs)
  case Nil
  then show ?case by simp
next
  case (Cons x xs)
  show ?case
  proof (cases "fst x = a")
    case True
    with Cons.prems have "x = (a, b)"
      by (cases x) (auto simp: image_iff)
    then show ?thesis by simp
  next
    case False
    with Cons show ?thesis by auto
  qed
qed

text \<open>
  Claim C7. In every state the module can reach, the command does nothing when no
  multi-range widget has the focus, and does nothing when the widget that has the focus
  has no entry in the registry; in short, it does nothing when no widget of the
  registry reports focus. When the widget of a registry entry reports focus, the
  command runs the handler of that entry, and no other entry has a widget that reports
  focus.
\<close>

theorem handleNewRule_routes_to_focused:
  assumes w: "w = run ext ins init_world"
  shows "(getFocusedMultiRangeInlineEditor w = None \<longrightarrow> handleNewRule w = w) \<and>
         (\<forall>ed. getFocusedMultiRangeInlineEditor w = Some ed \<and>
               ed \<notin> fst ` set (newRuleHandlers w) \<longrightarrow>
            handleNewRule w = w) \<and>
         ((\<forall>entry \<in> set (newRuleHandlers w). \<not> hasFocus (fst entry) w) \<longrightarrow>
            handleNewRule w = w) \<and>
         (\<forall>ed s. (ed, s) \<in> set (newRuleHandlers w) \<and> hasFocus ed w \<longrightarrow>
            handleNewRule w = handleNewRuleClick s False w \<and>
            (\<forall>entry \<in> set (newRuleHandlers w). hasFocus (fst entry) w \<longrightarrow> entry = (ed, s)))"
proof -
  have nofocus: "handleNewRule w = w" if "getFocusedMultiRangeInlineEditor w = None"
    using that by (simp add: handleNewRule_def)
  have noentry: "handleNewRule w = w"
    if f: "getFocusedMultiRangeInlineEditor w = Some ed \<and>
           ed \<notin> fst ` set (newRuleHandlers w)" for ed
  proof -
    from f have "\<And>entry. entry \<in> set (newRuleHandlers w) \<Longrightarrow> fst entry \<noteq> ed"
      by (auto simp: image_iff)
    then have "find (\<lambda>entry. fst entry = ed) (newRuleHandlers w) = None"
      unfolding find_None_iff by blast
    with f show ?thesis by (simp add: handleNewRule_def)
  qed
  have idle: "handleNewRule w = w"
    if none: "\<forall>entry \<in> set (newRuleHandlers w). \<not> hasFocus (fst entry) w"
  proof (cases "getFocusedMultiRangeInlineEditor w")
    case None
    then show ?thesis by (rule nofocus)
  next
    case (Some ed)
    then have "focused w = Some ed"
      by (simp add: getFocusedMultiRangeInlineEditor_def)
    with none have "ed \<notin> fst ` set (newRuleHandlers w)"
      by (auto simp: hasFocus_def)
    with Some show ?thesis by (intro noentry) simp
  qed
  have routed: "handleNewRule w = handleNewRuleClick s False w \<and>
        (\<forall>entry \<in> set (newRuleHandlers w). hasFocus (fst entry) w \<longrightarrow> entry = (ed, s))"
    if a: "(ed, s) \<in> set (newRuleHandlers w) \<and> hasFocus ed w" for ed s
  proof -
    have "world_ok w" unfolding w by (rule world_ok_reachable)
    then have dist: "distinct (map fst (newRuleHandlers w))"
      by (simp add: world_ok_def registry_ok_def)
    from a have foc: "focused w = Some ed" by (simp add: hasFocus_def)
    from find_distinct_fst [OF dist] a
    have fnd: "find (\<lambda>entry. fst entry = ed) (newRuleHandlers w) = Some (ed, s)" by blast
    have 1: "handleNewRule w = handleNewRuleClick s False w"
      using foc fnd by (simp add: handleNewRule_def getFocusedMultiRangeInlineEditor_def)
    have 2: "entry = (ed, s)"
      if e: "entry \<in> set (newRuleHandlers w)" "hasFocus (fst entry) w" for entry
    proof -
      from e(2) have fe: "fst entry = ed" using foc by (simp add: hasFocus_def)
      with e(1) have "(ed, snd entry) \<in> set (newRuleHandlers w)"
        by (metis prod.collapse)
      from find_distinct_fst [OF dist this] fnd have "snd entry = s" by simp
      with fe show ?thesis by (metis prod.collapse)
    qed
    from 1 2 show ?thesis by blast
  qed
  from nofocus noentry idle routed show ?thesis by blast
qed

text \<open>The theorem in a state where the registered widget has the focus, in one where
  no widget has it, and in one where the focus is on a widget of another provider,
  which has no entry in the registry.\<close>

theorem handleNewRule_routes_to_focused_witness:
  "(0, 0) \<in> set (newRuleHandlers (run ex_ext ex_two_sheets init_world)) \<and>
   hasFocus 0 (run ex_ext ex_two_sheets init_world) \<and>
   handleNewRule (run ex_ext ex_two_sheets init_world) =
     handleNewRuleClick 0 False (run ex_ext ex_two_sheets init_world) \<and>
   newRuleHandlers (run ex_ext ex_built init_world) = [(0, 0)] \<and>
   getFocusedMultiRangeInlineEditor (run ex_ext ex_built init_world) = None \<and>
   handleNewRule (run ex_ext ex_built init_world) = run ex_ext ex_built init_world \<and>
   newRuleHandlers (run ex_ext ex_other_focused init_world) = [(0, 0)] \<and>
   getFocusedMultiRangeInlineEditor (run ex_ext ex_other_focused init_world) = Some 1 \<and>
   handleNewRule (run ex_ext ex_other_focused init_world) =
     run ex_ext ex_other_focused init_world"
proof -
  let ?w = "run ex_ext ex_two_sheets init_world"
  let ?v = "run ex_ext ex_built init_world"
  let ?o = "run ex_ext ex_other_focused init_world"
  have r: "(0, 0) \<in> set (newRuleHandlers ?w)" by code_simp
  have f: "hasFocus 0 ?w" by code_simp
  have rv: "newRuleHandlers ?v = [(0, 0)]" by code_simp
  have fv: "getFocusedMultiRangeInlineEditor ?v = None" by code_simp
  have ro: "newRuleHandlers ?o = [(0, 0)]" by code_simp
  have fo: "getFocusedMultiRangeInlineEditor ?o = Some 1" by code_simp
  from ro have no: "(1::nat) \<notin> fst ` set (newRuleHandlers ?o)" by simp
  from handleNewRule_routes_to_focused [OF refl, of ex_ext ex_two_sheets] r f
  have 1: "handleNewRule ?w = handleNewRuleClick 0 False ?w" by blast
  from handleNewRule_routes_to_focused [OF refl, of ex_ext ex_built] fv
  have 2: "handleNewRule ?v = ?v" by blast
  from handleNewRule_routes_to_focused [OF refl, of ex_ext ex_other_focused] fo no
  have 3: "handleNewRule ?o = ?o" by blast
  from r f rv fv ro fo 1 2 3 show ?thesis by blast
qed

lemma reachable_pending_ok:
  assumes "w = run ext ins init_world" "i < length (pending w)"
  shows "pending_ok w (pending w ! i)"
proof -
  have "world_ok w" unfolding assms(1) by (rule world_ok_reachable)
  with assms(2) show ?thesis by (auto intro: world_okD(2))
qed

text \<open>
  Claim C9. In every state the module can reach, when the document of a rule-creation
  request cannot be obtained, no callback runs: the request has no failure callback,
  and the state afterwards is the state before without the pending request. No rule is
  inserted, nothing is logged, the widgets keep their ranges and carets, and the
  creation is never completed.
\<close>

theorem document_failure_leaves_state:
  assumes w: "w = run ext ins init_world"
    and i: "i < length (pending w)"
    and r: "req (pending w ! i) = GetDocumentForPath path"
  shows "failCallbacks (pending w ! i) = [] \<and>
         settle ext i Failed w = w\<lparr>pending := take i (pending w) @ drop (Suc i) (pending w)\<rparr> \<and>
         editors (settle ext i Failed w) = editors w \<and>
         sessions (settle ext i Failed w) = sessions w \<and>
         effects (settle ext i Failed w) = effects w"
proof -
  from reachable_pending_ok [OF w i] r have f: "failCallbacks (pending w ! i) = []"
    unfolding pending_ok_def by auto
  have "settle ext i Failed w = w\<lparr>pending := take i (pending w) @ drop (Suc i) (pending w)\<rparr>"
    using i f by (simp add: settle_def)
  with f show ?thesis by simp
qed

text \<open>The theorem in the state after a click on the button with one stylesheet.\<close>

theorem document_failure_leaves_state_witness:
  "(0::nat) < length (pending (run ex_ext ex_creating init_world)) \<and>
   req (pending (run ex_ext ex_creating init_world) ! 0) = GetDocumentForPath ''/a.css'' \<and>
   failCallbacks (pending (run ex_ext ex_creating init_world) ! 0) = [] \<and>
   settle ex_ext 0 Failed (run ex_ext ex_creating init_world) =
     (run ex_ext ex_creating init_world)
       \<lparr>pending := take 0 (pending (run ex_ext ex_creating init_world)) @
                    drop (Suc 0) (pending (run ex_ext ex_creating init_world))\<rparr> \<and>
   editors (settle ex_ext 0 Failed (run ex_ext ex_creating init_world)) =
     editors (run ex_ext ex_creating init_world) \<and>
   sessions (settle ex_ext 0 Failed (run ex_ext ex_creating init_world)) =
     sessions (run ex_ext ex_creating init_world) \<and>
   effects (settle ex_ext 0 Failed (run ex_ext ex_creating init_world)) =
     effects (run ex_ext ex_creating init_world)"
proof -
  let ?w = "run ex_ext ex_creating init_world"
  have i: "(0::nat) < length (pending ?w)" by code_simp
  have r: "req (pending ?w ! 0) = GetDocumentForPath ''/a.css''" by code_simp
  from document_failure_leaves_state [OF refl i r] i r show ?thesis by blast
qed

text \<open>
  Claim C8. In every state the module can reach, when the document of a rule-creation
  request is obtained, the rule is inserted for the selector of the request, and the
  widget of the request afterwards has one more range, which is selected, whose first
  and last line are those of the range returned by the insertion; the caret of the
  widget's editor is the position returned by the insertion.
\<close>

theorem rule_creation_updates_widget:
  assumes w: "w = run ext ins init_world"
    and i: "i < length (pending w)"
    and r: "req (pending w ! i) = GetDocumentForPath path"
    and w': "w' = settle ext i (DocumentOpened d) w"
  shows "\<exists>selName ed.
           doneCallbacks (pending w ! i) = [AddRuleDone selName (Some ed)] \<and>
           ed < length (editors w) \<and>
           effects w' = effects w @
             [AddRuleToDocument d selName (getUseTabChar ext) (getSpaceUnits ext)] \<and>
           ranges (editors w' ! ed) = ranges (editors w ! ed) @
             [\<lparr>rangeLabel = selName, rangeDoc = d,
               startLine = line (range_from
                 (addRuleToDocument ext d selName (getUseTabChar ext) (getSpaceUnits ext))),
               endLine = line (range_to
                 (addRuleToDocument ext d selName (getUseTabChar ext) (getSpaceUnits ext)))\<rparr>] \<and>
           selectedRange (editors w' ! ed) = Some (length (ranges (editors w ! ed))) \<and>
           cursorPos (editors w' ! ed) =
             Some (rule_pos (addRuleToDocument ext d selName (getUseTabChar ext) (getSpaceUnits ext)))"
proof -
  from reachable_pending_ok [OF w i] r obtain selName ed where
    cb: "doneCallbacks (pending w ! i) = [AddRuleDone selName (Some ed)]"
    and ed: "ed < length (editors w)"
    unfolding pending_ok_def by auto
  let ?w1 = "w\<lparr>pending := take i (pending w) @ drop (Suc i) (pending w)\<rparr>"
  have eq: "w' = addRule_done ext selName (Some ed) d ?w1"
    unfolding w' using i r cb by (simp add: settle_def)
  have "effects w' = effects w @
      [AddRuleToDocument d selName (getUseTabChar ext) (getSpaceUnits ext)]"
    unfolding eq by (simp add: addRule_done_fields)
  moreover have "editors w' ! ed =
      setCursorPos
        (line (rule_pos (addRuleToDocument ext d selName (getUseTabChar ext) (getSpaceUnits ext))))
        (ch (rule_pos (addRuleToDocument ext d selName (getUseTabChar ext) (getSpaceUnits ext))))
        (addAndSelectRange selName d
          (line (range_from (addRuleToDocument ext d selName (getUseTabChar ext) (getSpaceUnits ext))))
          (line (range_to (addRuleToDocument ext d selName (getUseTabChar ext) (getSpaceUnits ext))))
          (editors w ! ed))"
    unfolding eq using ed by (simp add: addRule_done_def Let_def)
  ultimately show ?thesis
    using cb ed by (simp add: setCursorPos_def addAndSelectRange_def)
qed

text \<open>The theorem in the state after a click on the button with one stylesheet, with
  the document \<open>/a.css\<close> obtained.\<close>

theorem rule_creation_updates_widget_witness:
  "(0::nat) < length (pending (run ex_ext ex_creating init_world)) \<and>
   req (pending (run ex_ext ex_creating init_world) ! 0) = GetDocumentForPath ''/a.css'' \<and>
   (\<exists>selName ed.
      doneCallbacks (pending (run ex_ext ex_creating init_world) ! 0) =
        [AddRuleDone selName (Some ed)] \<and>
      ed < length (editors (run ex_ext ex_creating init_world)) \<and>
      effects (settle ex_ext 0 (DocumentOpened ''/a.css'') (run ex_ext ex_creating init_world)) =
        effects (run ex_ext ex_creating init_world) @
          [AddRuleToDocument ''/a.css'' selName (getUseTabChar ex_ext) (getSpaceUnits ex_ext)] \<and>
      ranges (editors (settle ex_ext 0 (DocumentOpened ''/a.css'')
                (run ex_ext ex_creating init_world)) ! ed) =
        ranges (editors (run ex_ext ex_creating init_world) ! ed) @
          [\<lparr>rangeLabel = selName, rangeDoc = ''/a.css'',
            startLine = line (range_from (addRuleToDocument ex_ext ''/a.css'' selName
                          (getUseTabChar ex_ext) (getSpaceUnits ex_ext))),
            endLine = line (range_to (addRuleToDocument ex_ext ''/a.css'' selName
                          (getUseTabChar ex_ext) (getSpaceUnits ex_ext)))\<rparr>] \<and>
      selectedRange (editors (settle ex_ext 0 (DocumentOpened ''/a.css'')
                (run ex_ext ex_creating init_world)) ! ed) =
        Some (length (ranges (editors (run ex_ext ex_creating init_world) ! ed))) \<and>
      cursorPos (editors (settle ex_ext 0 (DocumentOpened ''/a.css'')
                (run ex_ext ex_creating init_world)) ! ed) =
        Some (rule_pos (addRuleToDocument ex_ext ''/a.css'' selName
                (getUseTabChar ex_ext) (getSpaceUnits ex_ext))))"
proof -
  let ?w = "run ex_ext ex_creating init_world"
  have i: "(0::nat) < length (pending ?w)" by code_simp
  have r: "req (pending ?w ! 0) = GetDocumentForPath ''/a.css''" by code_simp
  from rule_creation_updates_widget [OF refl i r refl, of "''/a.css''"] i r show ?thesis
    by blast
qed

text \<open>
  Claim C6. In every state the module can reach, when a rule lookup fails, the result
  of its session, pending until then, is rejected, so the caller is given no widget;
  one message is logged, and nothing else is done: no widget and no button is built,
  the registry is unchanged, the lookup is not issued again, and every other session
  is as before.
\<close>

theorem lookup_failure_rejects:
  assumes w: "w = run ext ins init_world"
    and i: "i < length (pending w)"
    and r: "req (pending w ! i) = FindMatchingRules selName d"
    and w': "w' = settle ext i Failed w"
  shows "\<exists>s. s < length (sessions w) \<and>
           doneCallbacks (pending w ! i) = [RulesDone s] \<and>
           failCallbacks (pending w ! i) = [RulesFail s] \<and>
           result (sessions w ! s) = Pending \<and>
           result (sessions w' ! s) = Rejected \<and>
           cssInlineEditor (sessions w' ! s) = None \<and>
           newRuleButton (sessions w' ! s) = None \<and>
           editors w' = editors w \<and>
           newRuleHandlers w' = newRuleHandlers w \<and>
           pending w' = take i (pending w) @ drop (Suc i) (pending w) \<and>
           effects w' = effects w @ [ConsoleLog ''Error in findMatchingRules()''] \<and>
           (\<forall>t. t \<noteq> s \<longrightarrow> sessions w' ! t = sessions w ! t)"
proof -
  from reachable_pending_ok [OF w i] r obtain s where
    s: "s < length (sessions w)" "doneCallbacks (pending w ! i) = [RulesDone s]"
      "failCallbacks (pending w ! i) = [RulesFail s]" "fresh_session (sessions w ! s)"
    unfolding pending_ok_def by auto
  let ?w1 = "w\<lparr>pending := take i (pending w) @ drop (Suc i) (pending w)\<rparr>"
  have eq: "w' = findMatchingRules_fail s ?w1"
    unfolding w' using i r s by (simp add: settle_def)
  have ses: "sessions w' = (sessions w)[s := (sessions w ! s)\<lparr>result := Rejected\<rparr>]"
    unfolding eq using s(4)
    by (simp add: findMatchingRules_fail_fields fresh_session_def reject_def)
  have "result (sessions w' ! s) = Rejected" "cssInlineEditor (sessions w' ! s) = None"
    "newRuleButton (sessions w' ! s) = None"
    using s(1,4) by (simp_all add: ses fresh_session_def)
  moreover have "\<forall>t. t \<noteq> s \<longrightarrow> sessions w' ! t = sessions w ! t"
    by (simp add: ses)
  moreover have "editors w' = editors w" "newRuleHandlers w' = newRuleHandlers w"
    "pending w' = take i (pending w) @ drop (Suc i) (pending w)"
    "effects w' = effects w @ [ConsoleLog ''Error in findMatchingRules()'']"
    unfolding eq by (simp_all add: findMatchingRules_fail_fields)
  moreover have "result (sessions w ! s) = Pending"
    using s(4) by (simp add: fresh_session_def)
  ultimately show ?thesis using s(1,2,3) by blast
qed

text \<open>The theorem in the state where the rule lookup of the first session is
  pending.\<close>

theorem lookup_failure_rejects_witness:
  "(0::nat) < length (pending (run ex_ext ex_lookup init_world)) \<and>
   req (pending (run ex_ext ex_lookup init_world) ! 0) =
     FindMatchingRules ''#main-panel'' ''index.html'' \<and>
   (\<exists>s. s < length (sessions (run ex_ext ex_lookup init_world)) \<and>
      doneCallbacks (pending (run ex_ext ex_lookup init_world) ! 0) = [RulesDone s] \<and>
      failCallbacks (pending (run ex_ext ex_lookup init_world) ! 0) = [RulesFail s] \<and>
      result (sessions (run ex_ext ex_lookup init_world) ! s) = Pending \<and>
      result (sessions (settle ex_ext 0 Failed (run ex_ext ex_lookup init_world)) ! s) = Rejected \<and>
      cssInlineEditor (sessions (settle ex_ext 0 Failed (run ex_ext ex_lookup init_world)) ! s) = None \<and>
      newRuleButton (sessions (settle ex_ext 0 Failed (run ex_ext ex_lookup init_world)) ! s) = None \<and>
      editors (settle ex_ext 0 Failed (run ex_ext ex_lookup init_world)) =
        editors (run ex_ext ex_lookup init_world) \<and>
      newRuleHandlers (settle ex_ext 0 Failed (run ex_ext ex_lookup init_world)) =
        newRuleHandlers (run ex_ext ex_lookup init_world) \<and>
      pending (settle ex_ext 0 Failed (run ex_ext ex_lookup init_world)) =
        take 0 (pending (run ex_ext ex_lookup init_world)) @
        drop (Suc 0) (pending (run ex_ext ex_lookup init_world)) \<and>
      effects (settle ex_ext 0 Failed (run ex_ext ex_lookup init_world)) =
        effects (run ex_ext ex_lookup init_world) @ [ConsoleLog ''Error in findMatchingRules()''] \<and>
      (\<forall>t. t \<noteq> s \<longrightarrow>
         sessions (settle ex_ext 0 Failed (run ex_ext ex_lookup init_world)) ! t =
         sessions (run ex_ext ex_lookup init_world) ! t))"
proof -
  let ?w = "run ex_ext ex_lookup init_world"
  have i: "(0::nat) < length (pending ?w)" by code_simp
  have r: "req (pending ?w ! 0) = FindMatchingRules ''#main-panel'' ''index.html''" by code_simp
  from lookup_failure_rejects [OF refl i r refl] i r show ?thesis by blast
qed

text \<open>
  Claim C5. In every state the module can reach, a session that waits for its list of
  stylesheets has a disabled button, as it was built; when the list arrives empty, the
  button is disabled, and it is still disabled, with the list still empty, after every
  sequence of further inputs, whatever the number of rules the lookup returned.
\<close>

theorem no_stylesheets_button_stays_disabled:
  assumes w: "w = run ext ins init_world"
    and i: "i < length (pending w)"
    and cb: "doneCallbacks (pending w ! i) = [FileInfosDone s n]"
  shows "newRuleButton (sessions w ! s) = Some \<lparr>disabled = True, btn_dropdown = False\<rparr> \<and>
         (\<forall>ins'.
            newRuleButton (sessions (run ext ins' (settle ext i (FileInfosFound []) w)) ! s) =
              Some \<lparr>disabled = True, btn_dropdown = False\<rparr> \<and>
            cssFileInfos (sessions (run ext ins' (settle ext i (FileInfosFound []) w)) ! s) = [])"
proof -
  have ok: "world_ok w" unfolding w by (rule world_ok_reachable)
  let ?p = "pending w ! i"
  let ?w1 = "w\<lparr>pending := take i (pending w) @ drop (Suc i) (pending w)\<rparr>"
  let ?w2 = "settle ext i (FileInfosFound []) w"
  have pk: "pending_ok w ?p" by (rule reachable_pending_ok [OF w i])
  obtain e where r: "req ?p = GetFileInfoList e"
    using pk cb unfolding pending_ok_def by (cases "req ?p") auto
  with pk cb have s: "s < length (sessions w)"
    and b: "newRuleButton (sessions w ! s) = Some \<lparr>disabled = True, btn_dropdown = False\<rparr>"
    unfolding pending_ok_def by auto
  have eq: "?w2 = getFileInfoList_done s n [] ?w1"
    using i r cb by (simp add: settle_def)
  have ses: "sessions ?w2 = (sessions w)[s := (sessions w ! s)
        \<lparr>cssFileInfos := [],
         newRuleButton := Some \<lparr>disabled = True, btn_dropdown = False\<rparr>\<rparr>]"
    unfolding eq using getFileInfoList_done_sessions [of s ?w1 _ n "[]"] s b by simp
  have no: "s \<notin> set (owners (pending ?w2))"
    using removed_owner [OF world_okD(3) [OF ok] i, of "FileInfosDone s n" s] cb
    unfolding eq by (simp add: getFileInfoList_done_fields)
  have st: "settled ?w2 s"
    using s no by (simp add: settled_def ses)
  have ok2: "world_ok ?w2" using ok by (rule world_ok_settle)
  have b2: "buttons ?w2 ! s = (Some \<lparr>disabled = True, btn_dropdown = False\<rparr>, [])"
    using s by (simp add: buttons_def ses)
  have "newRuleButton (sessions (run ext ins' ?w2) ! s) =
              Some \<lparr>disabled = True, btn_dropdown = False\<rparr> \<and>
        cssFileInfos (sessions (run ext ins' ?w2) ! s) = []" for ins'
  proof -
    from frame_run [OF ok2 st, of ext ins']
    have "settled (run ext ins' ?w2) s" "buttons (run ext ins' ?w2) ! s = buttons ?w2 ! s"
      by simp_all
    then have "(newRuleButton (sessions (run ext ins' ?w2) ! s),
                cssFileInfos (sessions (run ext ins' ?w2) ! s)) = buttons ?w2 ! s"
      by (simp add: settled_def buttons_nth)
    with b2 show ?thesis by simp
  qed
  with b show ?thesis by blast
qed

text \<open>The theorem in the state where the lookup returned no rule, followed by a
  focus change, a click and the command.\<close>

theorem no_stylesheets_button_stays_disabled_witness:
  "(0::nat) < length (pending (run ex_ext ex_built init_world)) \<and>
   doneCallbacks (pending (run ex_ext ex_built init_world) ! 0) = [FileInfosDone 0 0] \<and>
   newRuleButton (sessions (run ex_ext ex_built init_world) ! 0) =
     Some \<lparr>disabled = True, btn_dropdown = False\<rparr> \<and>
   newRuleButton (sessions (run ex_ext [FocusChange (Some 0), ClickButton 0, NewRuleCommand]
       (settle ex_ext 0 (FileInfosFound []) (run ex_ext ex_built init_world))) ! 0) =
     Some \<lparr>disabled = True, btn_dropdown = False\<rparr> \<and>
   cssFileInfos (sessions (run ex_ext [FocusChange (Some 0), ClickButton 0, NewRuleCommand]
       (settle ex_ext 0 (FileInfosFound []) (run ex_ext ex_built init_world))) ! 0) = []"
proof -
  let ?w = "run ex_ext ex_built init_world"
  have i: "(0::nat) < length (pending ?w)" by code_simp
  have cb: "doneCallbacks (pending ?w ! 0) = [FileInfosDone 0 0]" by code_simp
  from no_stylesheets_button_stays_disabled [OF refl i cb] i cb show ?thesis by blast
qed

text \<open>
  Claim C4, as amended. In every state the module can reach, a click on an enabled
  button finds at least one stylesheet. With exactly one, no picker is open and the
  click does nothing but request the document of that stylesheet, with the callback
  that creates the rule for the selector and the widget of the session. With two or
  more, the button is marked as a dropdown trigger and the click requests nothing: it
  opens the picker, listing all candidates, when none is open, and closes the picker
  when one is open.
\<close>

theorem click_on_enabled_button:
  assumes w: "w = run ext ins init_world"
    and s: "s < length (sessions w)"
    and b: "newRuleButton (sessions w ! s) = Some b"
    and en: "\<not> disabled b"
    and w': "w' = step ext (ClickButton s) w"
  shows "cssFileInfos (sessions w ! s) \<noteq> [] \<and>
         (length (cssFileInfos (sessions w ! s)) = 1 \<longrightarrow>
            dropdown (sessions w ! s) = None \<and>
            w' = w\<lparr>pending := pending w @
                   [\<lparr>req = GetDocumentForPath (fullPath (cssFileInfos (sessions w ! s) ! 0)),
                     doneCallbacks = [AddRuleDone (selectorName (sessions w ! s))
                                        (cssInlineEditor (sessions w ! s))],
                     failCallbacks = []\<rparr>]\<rparr>) \<and>
         (2 \<le> length (cssFileInfos (sessions w ! s)) \<longrightarrow>
            btn_dropdown b \<and> pending w' = pending w \<and>
            (dropdown (sessions w ! s) = None \<longrightarrow>
               dropdown (sessions w' ! s) = Some (renderList (cssFileInfos (sessions w ! s)))) \<and>
            (dropdown (sessions w ! s) \<noteq> None \<longrightarrow> dropdown (sessions w' ! s) = None))"
proof -
  have ok: "world_ok w" unfolding w by (rule world_ok_reachable)
  have sk: "session_ok w s" using ok s by (rule world_okD(4))
  have no: "s \<notin> set (owners (pending w))" using ok b en by (rule enabled_not_owner)
  let ?fis = "cssFileInfos (sessions w ! s)"
  from sk b no en have ne: "?fis \<noteq> []" and dd: "btn_dropdown b = (1 < length ?fis)"
    and two: "dropdown (sessions w ! s) \<noteq> None \<longrightarrow> 2 \<le> length ?fis"
    and h: "dropdownEventHandler (sessions w ! s) \<longleftrightarrow> dropdown (sessions w ! s) \<noteq> None"
    unfolding session_ok_def by auto
  have click: "w' = handleNewRuleClick s True w"
    unfolding w' using s b by simp
  have one: "dropdown (sessions w ! s) = None \<and>
            w' = w\<lparr>pending := pending w @
                   [\<lparr>req = GetDocumentForPath (fullPath (?fis ! 0)),
                     doneCallbacks = [AddRuleDone (selectorName (sessions w ! s))
                                        (cssInlineEditor (sessions w ! s))],
                     failCallbacks = []\<rparr>]\<rparr>"
    if l: "length ?fis = 1"
  proof -
    from two l have "dropdown (sessions w ! s) = None" by auto
    moreover have "w' = addRule (selectorName (sessions w ! s)) (cssInlineEditor (sessions w ! s))
        (fullPath (?fis ! 0)) w"
      unfolding click using b en l by (simp add: handleNewRuleClick_def)
    ultimately show ?thesis by (simp add: addRule_def)
  qed
  have many: "btn_dropdown b \<and> pending w' = pending w \<and>
            (dropdown (sessions w ! s) = None \<longrightarrow>
               dropdown (sessions w' ! s) = Some (renderList ?fis)) \<and>
            (dropdown (sessions w ! s) \<noteq> None \<longrightarrow> dropdown (sessions w' ! s) = None)"
    if l: "2 \<le> length ?fis"
  proof -
    from l have l1: "length ?fis \<noteq> 1" by simp
    have opened: "dropdown (sessions w' ! s) = Some (renderList ?fis) \<and> pending w' = pending w"
      if "dropdown (sessions w ! s) = None"
    proof -
      have "w' = showDropdown s w"
        unfolding click using b en l1 that by (simp add: handleNewRuleClick_def)
      then show ?thesis using s by simp
    qed
    have closed: "dropdown (sessions w' ! s) = None \<and> pending w' = pending w"
      if d: "dropdown (sessions w ! s) \<noteq> None"
    proof -
      have "w' = closeDropdown s w"
        unfolding click using b en l1 d by (auto simp: handleNewRuleClick_def)
      with h d have "w' = cleanupDropdown s w" by (simp add: closeDropdown_def)
      then show ?thesis using s by simp
    qed
    from dd l opened closed show ?thesis by (cases "dropdown (sessions w ! s)") auto
  qed
  from ne one many show ?thesis by blast
qed

text \<open>The theorem with one stylesheet, with two and no picker open, and with two and
  the picker open.\<close>

theorem click_on_enabled_button_witness:
  "newRuleButton (sessions (run ex_ext ex_one_sheet init_world) ! 0) =
     Some \<lparr>disabled = False, btn_dropdown = False\<rparr> \<and>
   length (cssFileInfos (sessions (run ex_ext ex_one_sheet init_world) ! 0)) = 1 \<and>
   dropdown (sessions (run ex_ext ex_one_sheet init_world) ! 0) = None \<and>
   step ex_ext (ClickButton 0) (run ex_ext ex_one_sheet init_world) =
     (run ex_ext ex_one_sheet init_world)
       \<lparr>pending := pending (run ex_ext ex_one_sheet init_world) @
          [\<lparr>req = GetDocumentForPath
                   (fullPath (cssFileInfos (sessions (run ex_ext ex_one_sheet init_world) ! 0) ! 0)),
            doneCallbacks =
              [AddRuleDone (selectorName (sessions (run ex_ext ex_one_sheet init_world) ! 0))
                 (cssInlineEditor (sessions (run ex_ext ex_one_sheet init_world) ! 0))],
            failCallbacks = []\<rparr>]\<rparr> \<and>
   newRuleButton (sessions (run ex_ext ex_two_sheets init_world) ! 0) =
     Some \<lparr>disabled = False, btn_dropdown = True\<rparr> \<and>
   length (cssFileInfos (sessions (run ex_ext ex_two_sheets init_world) ! 0)) = 2 \<and>
   dropdown (sessions (run ex_ext ex_two_sheets init_world) ! 0) = None \<and>
   dropdown (sessions (step ex_ext (ClickButton 0) (run ex_ext ex_two_sheets init_world)) ! 0) =
     Some (renderList (cssFileInfos (sessions (run ex_ext ex_two_sheets init_world) ! 0))) \<and>
   pending (step ex_ext (ClickButton 0) (run ex_ext ex_two_sheets init_world)) =
     pending (run ex_ext ex_two_sheets init_world) \<and>
   dropdown (sessions (run ex_ext ex_picker_open init_world) ! 0) \<noteq> None \<and>
   dropdown (sessions (step ex_ext (ClickButton 0) (run ex_ext ex_picker_open init_world)) ! 0) =
     None"
proof -
  let ?u = "run ex_ext ex_one_sheet init_world"
  let ?v = "run ex_ext ex_two_sheets init_world"
  let ?p = "run ex_ext ex_picker_open init_world"
  have su: "(0::nat) < length (sessions ?u)" by code_simp
  have bu: "newRuleButton (sessions ?u ! 0) = Some \<lparr>disabled = False, btn_dropdown = False\<rparr>"
    by code_simp
  have lu: "length (cssFileInfos (sessions ?u ! 0)) = 1" by code_simp
  have sv: "(0::nat) < length (sessions ?v)" by code_simp
  have bv: "newRuleButton (sessions ?v ! 0) = Some \<lparr>disabled = False, btn_dropdown = True\<rparr>"
    by code_simp
  have lv: "length (cssFileInfos (sessions ?v ! 0)) = 2" by code_simp
  have dv: "dropdown (sessions ?v ! 0) = None" by code_simp
  have sp: "(0::nat) < length (sessions ?p)" by code_simp
  have bp: "newRuleButton (sessions ?p ! 0) = Some \<lparr>disabled = False, btn_dropdown = True\<rparr>"
    by code_simp
  have lp: "length (cssFileInfos (sessions ?p ! 0)) = 2" by code_simp
  have dp: "dropdown (sessions ?p ! 0) \<noteq> None" by code_simp
  have en: "\<not> disabled \<lparr>disabled = False, btn_dropdown = b\<rparr>" for b by simp
  note U = click_on_enabled_button [OF refl su bu en refl]
  note V = click_on_enabled_button [OF refl sv bv en refl]
  note P = click_on_enabled_button [OF refl sp bp en refl]
  from U lu have 1: "dropdown (sessions ?u ! 0) = None \<and>
     step ex_ext (ClickButton 0) ?u =
     ?u\<lparr>pending := pending ?u @
          [\<lparr>req = GetDocumentForPath (fullPath (cssFileInfos (sessions ?u ! 0) ! 0)),
            doneCallbacks = [AddRuleDone (selectorName (sessions ?u ! 0))
                 (cssInlineEditor (sessions ?u ! 0))],
            failCallbacks = []\<rparr>]\<rparr>"
    by blast
  from V lv dv have 2: "dropdown (sessions (step ex_ext (ClickButton 0) ?v) ! 0) =
     Some (renderList (cssFileInfos (sessions ?v ! 0))) \<and>
     pending (step ex_ext (ClickButton 0) ?v) = pending ?v"
    by simp
  from P lp dp have 3: "dropdown (sessions (step ex_ext (ClickButton 0) ?p) ! 0) = None"
    by simp
  from bu lu bv lv dv dp 1 2 3 show ?thesis by blast
qed

text \<open>
  Claim C4 as stated fails for the second of two clicks with two stylesheets: the button
  is enabled and the picker is open, and the click closes the picker instead of opening
  it.
\<close>

theorem click_on_enabled_button_counterexample:
  "newRuleButton (sessions (run ex_ext ex_picker_open init_world) ! 0) =
     Some \<lparr>disabled = False, btn_dropdown = True\<rparr> \<and>
   length (cssFileInfos (sessions (run ex_ext ex_picker_open init_world) ! 0)) = 2 \<and>
   dropdown (sessions (run ex_ext ex_picker_open init_world) ! 0) =
     Some [(''a.css'', ''/a.css''), (''b.css'', ''/b.css'')] \<and>
   dropdown (sessions (step ex_ext (ClickButton 0) (run ex_ext ex_picker_open init_world)) ! 0) =
     None"
  by code_simp

end
